theory Spec2Isabelle
  imports
    Main
    "HOL-Library.Word"
    "HOL-Library.Multiset"
    "HOL-Library.Char_ord"
    "HOL-Library.List_Lexorder"
begin

section \<open>Document lists (cobs/document\_list.hpp)\<close>

text \<open>
  A path is its string. \<^verbatim>\<open>fs::path\<close> compares two paths element by element, and takes
  two paths for equal where their elements are (\<^verbatim>\<open>a//b.txt\<close> and \<^verbatim>\<open>a/b.txt\<close>). Of this
  comparison the model takes no more than that it is a linear order: it is given by a
  function \<open>path_key\<close> from paths into any linearly ordered type, one path being less than
  another where its key is, and equal to it for \<^verbatim>\<open>fs::path\<close> where the keys are equal.
\<close>

type_synonym path = string

text \<open>
  One such key, used in the examples: the names between the separators of a relative
  path, which are the elements \<^verbatim>\<open>fs::path\<close> iterates over, compared as lists.
\<close>

fun path_elements_from :: "string \<Rightarrow> path \<Rightarrow> string list" where
  "path_elements_from name [] = (if name = [] then [] else [name])"
| "path_elements_from name (c # cs) =
     (if c = CHR ''/''
      then (if name = [] then path_elements_from [] cs
            else name # path_elements_from [] cs)
      else path_elements_from (name @ [c]) cs)"

definition path_elements :: "path \<Rightarrow> string list" where
  "path_elements p = path_elements_from [] p"

datatype FileType = Any | Text | Cortex | KMerBuffer | Fasta | Fastq

text \<open>
  The fields \<^verbatim>\<open>path_\<close>, \<^verbatim>\<open>type_\<close>, \<^verbatim>\<open>size_\<close> and \<^verbatim>\<open>subdoc_index_\<close> of the source (a name
  cannot end in an underscore here).
\<close>

record DocumentEntry =
  entry_path :: path
  entry_type :: FileType
  entry_size :: nat
  subdoc_index :: nat

text \<open>\<^verbatim>\<open>bool operator < (const DocumentEntry& b) const { return path_ < b.path_; }\<close>\<close>

definition DocumentEntry_less ::
  "(path \<Rightarrow> 'k::linorder) \<Rightarrow> DocumentEntry \<Rightarrow> DocumentEntry \<Rightarrow> bool"
where
  "DocumentEntry_less path_key a b = (path_key (entry_path a) < path_key (entry_path b))"

text \<open>
  \<^verbatim>\<open>path.filename()\<close> and \<^verbatim>\<open>path.extension()\<close> of the C++17 standard library: the file
  name is what follows the last separator, and its extension starts at its last dot,
  unless the name is \<^verbatim>\<open>.\<close> or \<^verbatim>\<open>..\<close> or that dot is its first character.
\<close>

definition filename :: "path \<Rightarrow> string" where
  "filename p = rev (takeWhile (\<lambda>c. c \<noteq> CHR ''/'') (rev p))"

definition extension :: "path \<Rightarrow> string" where
  "extension p =
     (let f = filename p;
          e = rev (takeWhile (\<lambda>c. c \<noteq> CHR ''.'') (rev f))
      in if f = ''.'' \<or> f = ''..'' \<or> length f = Suc (length e) \<or> CHR ''.'' \<notin> set f
         then [] else CHR ''.'' # e)"

fun accept :: "path \<Rightarrow> FileType \<Rightarrow> bool" where
  "accept path Any =
     (extension path = ''.txt'' \<or> extension path = ''.ctx'' \<or>
      extension path = ''.cobs_doc'' \<or> extension path = ''.fasta'' \<or>
      extension path = ''.fastq'')"
| "accept path Text = (extension path = ''.txt'')"
| "accept path Cortex = (extension path = ''.ctx'')"
| "accept path KMerBuffer = (extension path = ''.cobs_doc'')"
| "accept path Fasta = (extension path = ''.fasta'')"
| "accept path Fastq = (extension path = ''.fastq'')"

text \<open>
  What the scan reads from the file system: \<^verbatim>\<open>fs::file_size(path)\<close>, which throws where
  the size cannot be read (\<open>None\<close>), and \<^verbatim>\<open>FastaFile fasta(path)\<close>, given by the sizes of its
  sub-documents (\<^verbatim>\<open>num_documents()\<close> is their number, \<^verbatim>\<open>size(i)\<close> the \<open>i\<close>-th of them;
  \<open>None\<close> where the constructor throws).
\<close>

record filesystem =
  file_size :: "path \<Rightarrow> nat option"
  fasta_file :: "path \<Rightarrow> nat list option"

datatype doc_error = Filesystem_error path | Fasta_error path

definition single_entry ::
  "filesystem \<Rightarrow> path \<Rightarrow> FileType \<Rightarrow> DocumentEntry list \<Rightarrow> doc_error + DocumentEntry list"
where
  "single_entry fs path t entries =
     (case file_size fs path of
        None \<Rightarrow> Inl (Filesystem_error path)
      | Some sz \<Rightarrow>
          Inr (entries @ [\<lparr>entry_path = path, entry_type = t, entry_size = sz, subdoc_index = 0\<rparr>]))"

definition add ::
  "filesystem \<Rightarrow> path \<Rightarrow> DocumentEntry list \<Rightarrow> doc_error + DocumentEntry list"
where
  "add fs path entries =
     (if extension path = ''.txt'' then single_entry fs path Text entries
      else if extension path = ''.ctx'' then single_entry fs path Cortex entries
      else if extension path = ''.cobs_doc'' then single_entry fs path KMerBuffer entries
      else if extension path = ''.fasta'' then
        (case fasta_file fs path of
           None \<Rightarrow> Inl (Fasta_error path)
         | Some sizes \<Rightarrow>
             Inr (entries @
               map (\<lambda>i. \<lparr>entry_path = path, entry_type = Fasta, entry_size = sizes ! i, subdoc_index = i\<rparr>)
                 [0..<length sizes]))
      else Inr entries)"

text \<open>
  \<^verbatim>\<open>std::sort(first, last)\<close> with a comparison \<open>lt\<close>: the standard fixes the result only
  up to the order of equivalent elements, so it is a relation between the range before and
  after: a permutation in which no element is followed by one that is less than it.
\<close>

definition std_sort :: "('a \<Rightarrow> 'a \<Rightarrow> bool) \<Rightarrow> 'a list \<Rightarrow> 'a list \<Rightarrow> bool" where
  "std_sort lt xs ys = (mset ys = mset xs \<and> sorted_wrt (\<lambda>a b. \<not> lt b a) ys)"

text \<open>The class has one member, \<^verbatim>\<open>list_\<close>.\<close>

record DocumentList =
  doc_list :: "DocumentEntry list"

text \<open>\<^verbatim>\<open>DocumentList(const std::vector<DocumentEntry>& list)\<close>: copy, then sort.\<close>

definition DocumentList_of_vector ::
  "(path \<Rightarrow> 'k::linorder) \<Rightarrow> DocumentEntry list \<Rightarrow> DocumentList \<Rightarrow> bool"
where
  "DocumentList_of_vector path_key lst dl =
     std_sort (DocumentEntry_less path_key) lst (doc_list dl)"

text \<open>
  \<^verbatim>\<open>DocumentList(const fs::path& dir, FileType filter)\<close>. The second argument of \<open>scan\<close> is
  what the recursive directory iterator yields for \<open>dir\<close>, in its order.
\<close>

fun scan ::
  "filesystem \<Rightarrow> FileType \<Rightarrow> path list \<Rightarrow> DocumentEntry list \<Rightarrow> doc_error + DocumentEntry list"
where
  "scan fs flt [] entries = Inr entries"
| "scan fs flt (p # ps) entries =
     (if accept p flt
      then (case add fs p entries of Inl e \<Rightarrow> Inl e | Inr l \<Rightarrow> scan fs flt ps l)
      else scan fs flt ps entries)"

definition DocumentList_of_dir ::
  "(path \<Rightarrow> 'k::linorder) \<Rightarrow> filesystem \<Rightarrow> path list \<Rightarrow> FileType \<Rightarrow> doc_error + DocumentList
     \<Rightarrow> bool"
where
  "DocumentList_of_dir path_key fs dir flt res =
     (case scan fs flt dir [] of
        Inl e \<Rightarrow> res = Inl e
      | Inr l \<Rightarrow>
          (case res of
             Inl e \<Rightarrow> False
           | Inr dl \<Rightarrow> std_sort (DocumentEntry_less path_key) l (doc_list dl)))"

text \<open>
  Modelled from the spec: \<^verbatim>\<open>cobs::base_name\<close> (cobs/util/file.hpp) is not among the sources.
  The spec calls its result the entry's basename; it is taken to be the file name up to its
  first dot. \<open>process_batches\<close> takes the function as an argument, so what is proved of
  it holds for every such function.
\<close>

definition base_name :: "path \<Rightarrow> string" where
  "base_name p = takeWhile (\<lambda>c. c \<noteq> CHR ''.'') (filename p)"

text \<open>
  \<^verbatim>\<open>process_batches(batch_size, func)\<close>. The loop runs over the entries that are left:
  \<open>rest = []\<close> is the test \<^verbatim>\<open>i + 1 == list_.size()\<close>. Each call of \<^verbatim>\<open>func(batch, out_file)\<close>
  is recorded with the number \<open>j\<close> printed around it.
\<close>

type_synonym batch_call = "nat \<times> DocumentEntry list \<times> string"

fun process_batches_loop ::
  "(path \<Rightarrow> string) \<Rightarrow> nat \<Rightarrow> DocumentEntry list \<Rightarrow> string \<Rightarrow> nat \<Rightarrow> DocumentEntry list
     \<Rightarrow> batch_call list"
where
  "process_batches_loop bn batch_size [] first_filename j batch = []"
| "process_batches_loop bn batch_size (d # rest) first_filename j batch =
     (let filename = bn (entry_path d);
          first_filename = (if first_filename = [] then filename else first_filename);
          last_filename = filename;
          batch = batch @ [d]
      in if length batch = batch_size \<or> (batch \<noteq> [] \<and> rest = [])
         then (j, batch, ''['' @ first_filename @ ''-'' @ last_filename @ '']'')
                # process_batches_loop bn batch_size rest [] (j + 1) []
         else process_batches_loop bn batch_size rest first_filename j batch)"

definition process_batches ::
  "(path \<Rightarrow> string) \<Rightarrow> DocumentList \<Rightarrow> nat \<Rightarrow> batch_call list"
where
  "process_batches bn dl batch_size = process_batches_loop bn batch_size (doc_list dl) [] 1 []"

text \<open>
  What the test \<^verbatim>\<open>first_filename.empty()\<close> leaves in \<^verbatim>\<open>first_filename\<close> after the basenames
  \<open>xs\<close> of a run: the first of them that is not empty, if any.
\<close>

definition first_nonempty :: "string list \<Rightarrow> string" where
  "first_nonempty xs = (case List.find (\<lambda>s. s \<noteq> []) xs of None \<Rightarrow> [] | Some f \<Rightarrow> f)"

section \<open>The asynchronous backend (isi/query/compact\_index/aio.cpp)\<close>

text \<open>
  Sizes, file offsets and addresses are 64-bit words: \<open>+\<close> and \<open>*\<close> wrap as the
  machine's do. Of a sub-index's parameters the backend reads \<^verbatim>\<open>signature_size\<close> only.
\<close>

type_synonym u64 = "64 word"

record parameter =
  signature_size :: u64

record compact_index_header =
  page_size :: u64
  parameters :: "parameter list"

text \<open>The fields of the kernel's \<^verbatim>\<open>struct iocb\<close> that the backend writes.\<close>

record iocb =
  aio_fildes :: int
  aio_lio_opcode :: nat
  aio_buf :: u64
  aio_nbytes :: u64
  aio_offset :: u64

definition IOCB_CMD_PREAD :: nat where
  "IOCB_CMD_PREAD = 0"

text \<open>
  The members of the class. \<^verbatim>\<open>m_iocbpp\<close> holds pointers into \<^verbatim>\<open>m_iocbs\<close>: here, the
  indices of the control blocks they point to.
\<close>

record aio =
  m_header :: compact_index_header
  m_offsets :: "u64 list"
  m_fd :: int
  m_ctx :: nat
  m_iocbs :: "iocb list"
  m_iocbpp :: "nat list"

text \<open>
  What the system answers: \<^verbatim>\<open>isi::get_page_size()\<close>, the descriptor \<^verbatim>\<open>open_file\<close> returns,
  the context and the return value of \<^verbatim>\<open>io_setup\<close>, and the return values of
  \<^verbatim>\<open>io_submit\<close> and \<^verbatim>\<open>io_getevents\<close>.
\<close>

record kernel =
  get_page_size :: u64
  open_file :: int
  io_setup_ctx :: nat
  io_setup_ret :: int
  io_submit_ret :: int
  io_getevents_ret :: int

text \<open>
  Modelled from the spec: \<^verbatim>\<open>assert_exit\<close> and \<^verbatim>\<open>exit_error_errno\<close>
  (isi/util/error\_handling.hpp) are not among the sources. The failures they report are
  fatal to the operation: they end the process with their message. A remainder by zero and
  an access outside an array have no defined behaviour in the source; the model stops
  there with an error of their own.
\<close>

datatype aio_error =
  Assert_exit string
  | Exit_error string
  | Division_by_zero
  | Out_of_bounds

text \<open>
  The loop of the constructor over \<^verbatim>\<open>m_offsets\<close>:
  \<^verbatim>\<open>m_offsets[i] = m_offsets[i - 1] + page_size * parameters[i - 1].signature_size\<close>.
\<close>

function offsets_loop :: "compact_index_header \<Rightarrow> nat \<Rightarrow> u64 list \<Rightarrow> u64 list" where
  "offsets_loop hdr i offs =
     (if i < length (parameters hdr)
      then offsets_loop hdr (Suc i)
             (offs[i := offs ! (i - 1) + page_size hdr * signature_size (parameters hdr ! (i - 1))])
      else offs)"
  by pat_completeness auto
termination
  by (relation "measure (\<lambda>(hdr, i, offs). length (parameters hdr) - i)") auto

text \<open>
  \<^verbatim>\<open>aio::aio(path)\<close>. The base class has read the header and left the stream at
  \<open>curr_pos\<close> (\<^verbatim>\<open>m_smd.curr_pos\<close>); \<open>iocbs\<close> is the array \<^verbatim>\<open>m_iocbs\<close> as declared in aio.hpp,
  which is not among the sources, so its capacity is the length of the list given.
  \<^verbatim>\<open>m_offsets[0]\<close> is written whether or not a sub-index exists.
\<close>

definition aio_ctor ::
  "kernel \<Rightarrow> compact_index_header \<Rightarrow> u64 \<Rightarrow> iocb list \<Rightarrow> aio_error + aio"
where
  "aio_ctor k hdr curr_pos iocbs =
     (if get_page_size k = 0 then Inl Division_by_zero
      else if page_size hdr mod get_page_size k \<noteq> 0
      then Inl (Assert_exit
        ''page size needs to be divisible by 4096 so the index can be opened with O_DIRECT'')
      else if parameters hdr = [] then Inl Out_of_bounds
      else
        let offs = offsets_loop hdr 1 ((replicate (length (parameters hdr)) 0)[0 := curr_pos])
        in if io_setup_ret k < 0 then Inl (Exit_error ''io_setup error'')
           else Inr \<lparr>m_header = hdr, m_offsets = offs, m_fd = open_file k,
                  m_ctx = io_setup_ctx k,
                  m_iocbs = map (\<lambda>c. c\<lparr>aio_fildes := open_file k,
                                        aio_lio_opcode := IOCB_CMD_PREAD,
                                        aio_nbytes := page_size hdr\<rparr>) iocbs,
                  m_iocbpp = [0..<length iocbs]\<rparr>)"

text \<open>
  The body of the two nested loops of \<^verbatim>\<open>read_from_disk\<close>, for one pair \<open>(i, j)\<close>. The
  control block written is \<^verbatim>\<open>m_iocbs[i]\<close>.
\<close>

definition setup_step ::
  "aio \<Rightarrow> u64 list \<Rightarrow> u64 \<Rightarrow> nat \<Rightarrow> nat \<Rightarrow> iocb list \<Rightarrow> aio_error + iocb list"
where
  "setup_step a hashes rows i j iocbs =
     (let sz = signature_size (parameters (m_header a) ! i);
          n = length (parameters (m_header a))
      in if sz = 0 then Inl Division_by_zero
         else if length iocbs \<le> i \<or> length (m_offsets a) \<le> i then Inl Out_of_bounds
         else
           let hash = hashes ! j mod sz
           in Inr (iocbs[i := (iocbs ! i)
                \<lparr>aio_buf := rows + (of_nat i + of_nat j * of_nat n) * page_size (m_header a),
                 aio_offset := m_offsets a ! i + hash * page_size (m_header a)\<rparr>]))"

text \<open>
  The loops themselves, in the order the source writes them (the \<^verbatim>\<open>omp\<close> pragma lets
  the iterations run on several threads; run in order, the last \<open>j\<close> wins).
\<close>

function setup_inner ::
  "aio \<Rightarrow> u64 list \<Rightarrow> u64 \<Rightarrow> nat \<Rightarrow> nat \<Rightarrow> iocb list \<Rightarrow> aio_error + iocb list"
where
  "setup_inner a hashes rows i j iocbs =
     (if j < length hashes
      then (case setup_step a hashes rows i j iocbs of
              Inl e \<Rightarrow> Inl e
            | Inr iocbs' \<Rightarrow> setup_inner a hashes rows i (Suc j) iocbs')
      else Inr iocbs)"
  by pat_completeness auto
termination
  by (relation "measure (\<lambda>(a, hashes, rows, i, j, iocbs). length hashes - j)") auto

function setup_outer ::
  "aio \<Rightarrow> u64 list \<Rightarrow> u64 \<Rightarrow> nat \<Rightarrow> iocb list \<Rightarrow> aio_error + iocb list"
where
  "setup_outer a hashes rows i iocbs =
     (if i < length (parameters (m_header a))
      then (case setup_inner a hashes rows i 0 iocbs of
              Inl e \<Rightarrow> Inl e
            | Inr iocbs' \<Rightarrow> setup_outer a hashes rows (Suc i) iocbs')
      else Inr iocbs)"
  by pat_completeness auto
termination
  by (relation "measure (\<lambda>(a, hashes, rows, i, iocbs). length (parameters (m_header a)) - i)")
    auto

text \<open>
  \<^verbatim>\<open>aio::read_from_disk(hashes, rows)\<close>. \<^verbatim>\<open>io_submit\<close> is called with \<open>num_requests\<close>
  and \<^verbatim>\<open>m_iocbpp\<close>, and any return value other than \<open>num_requests\<close> ends the process,
  whatever the arrays hold. Where it has accepted them all, it has read the first
  \<open>num_requests\<close> pointers of \<^verbatim>\<open>m_iocbpp\<close>; \<^verbatim>\<open>io_getevents\<close> writes as many events as it
  returns into \<^verbatim>\<open>io_event events[hashes.size()]\<close>. The result holds the object afterwards
  and the control blocks submitted, in order.
\<close>

definition read_from_disk ::
  "kernel \<Rightarrow> aio \<Rightarrow> u64 list \<Rightarrow> u64 \<Rightarrow> aio_error + aio \<times> iocb list"
where
  "read_from_disk k a hashes rows =
     (case setup_outer a hashes rows 0 (m_iocbs a) of
        Inl e \<Rightarrow> Inl e
      | Inr iocbs \<Rightarrow>
          let num_requests = length (parameters (m_header a)) * length hashes;
              ptrs = take num_requests (m_iocbpp a)
          in if io_submit_ret k \<noteq> int num_requests
             then Inl (Exit_error ''io_submit error'')
             else if num_requests \<le> length (m_iocbpp a) \<and>
                     list_all (\<lambda>p. p < length iocbs) ptrs
             then
               if int (length hashes) < io_getevents_ret k then Inl Out_of_bounds
               else if io_getevents_ret k < int num_requests
               then Inl (Exit_error ''io_getevents error'')
               else Inr (a\<lparr>m_iocbs := iocbs\<rparr>, map (\<lambda>p. iocbs ! p) ptrs)
             else Inl Out_of_bounds)"

text \<open>
  The requests of a probe as the specification describes them: one for each pair of a
  sub-index \<open>s\<close> and a hash \<open>h\<close>, reading the page at \<open>base_s + (h mod m_s) * P\<close>. Each is
  given as its file offset and its length.
\<close>

definition probe_pages :: "aio \<Rightarrow> u64 list \<Rightarrow> (u64 \<times> u64) list" where
  "probe_pages a hashes =
     concat (map (\<lambda>s. map (\<lambda>h.
        (m_offsets a ! s + (h mod signature_size (parameters (m_header a) ! s)) * page_size (m_header a),
         page_size (m_header a))) hashes)
       [0..<length (parameters (m_header a))])"

section \<open>The multi-size build (namespace genome::msbf)\<close>

text \<open>
  A directory is the list of its entries in the order its iterator yields them. Of a
  regular file the build reads its name, its size and, where it holds one, the header of
  a Bloom filter (\<^verbatim>\<open>file::deserialize_header\<close>).
\<close>

record bloom_filter_header =
  bloom_filter_size :: nat
  num_hashes :: nat

datatype node =
  Regular_file string nat "bloom_filter_header option"
  | Directory string "node list"

fun node_name :: "node \<Rightarrow> string" where
  "node_name (Regular_file name sz h) = name"
| "node_name (Directory name sub) = name"

text \<open>
  \<^verbatim>\<open>boost::filesystem::path::extension()\<close> of a file name: from its last dot on, and empty
  for \<^verbatim>\<open>.\<close>, \<^verbatim>\<open>..\<close> and a name without a dot.
\<close>

definition boost_extension :: "string \<Rightarrow> string" where
  "boost_extension f =
     (if f = ''.'' \<or> f = ''..'' \<or> CHR ''.'' \<notin> set f then []
      else CHR ''.'' # rev (takeWhile (\<lambda>c. c \<noteq> CHR ''.'') (rev f)))"

text \<open>The regular files of a directory with a given extension, and what a node holds.\<close>

definition regular_with :: "string \<Rightarrow> node \<Rightarrow> bool" where
  "regular_with ext n =
     (case n of Regular_file name sz h \<Rightarrow> boost_extension name = ext | Directory name sub \<Rightarrow> False)"

fun node_size :: "node \<Rightarrow> nat" where
  "node_size (Regular_file name sz h) = sz"
| "node_size (Directory name sub) = 0"

fun is_directory :: "node \<Rightarrow> bool" where
  "is_directory (Regular_file name sz h) = False"
| "is_directory (Directory name sub) = True"

fun entries_of :: "node \<Rightarrow> node list" where
  "entries_of (Regular_file name sz h) = []"
| "entries_of (Directory name sub) = sub"

datatype msbf_error =
  Assert_failed string
  | File_size_error string
  | Deserialize_error string
  | No_such_directory nat

text \<open>
  The inner loop of \<^verbatim>\<open>create_bloom_filters_from_samples\<close>: the largest size among the
  entries with the extension of a sample (\<^verbatim>\<open>sample_header::file_extension\<close>, a constant
  of file/sample\_header.hpp, here \<open>ext\<close>). \<^verbatim>\<open>boost::filesystem::file_size\<close> throws on a
  directory.
\<close>

fun max_sample_size :: "string \<Rightarrow> node list \<Rightarrow> nat \<Rightarrow> msbf_error + nat" where
  "max_sample_size ext [] max_file_size = Inr max_file_size"
| "max_sample_size ext (Regular_file name sz h # ns) max_file_size =
     (if boost_extension name = ext
      then max_sample_size ext ns (max max_file_size sz)
      else max_sample_size ext ns max_file_size)"
| "max_sample_size ext (Directory name sub # ns) max_file_size =
     (if boost_extension name = ext
      then Inl (File_size_error name)
      else max_sample_size ext ns max_file_size)"

text \<open>One call of \<^verbatim>\<open>bloom_filter::create_from_samples\<close>, by its five arguments.\<close>

record create_call =
  samples_dir :: string
  bloom_dir :: string
  filter_size :: nat
  block_size :: nat
  hashes_used :: nat

text \<open>
  \<^verbatim>\<open>create_bloom_filters_from_samples\<close>. \<^verbatim>\<open>calc_bloom_filter_size\<close> computes in double
  precision (\<^verbatim>\<open>std::log\<close>, \<^verbatim>\<open>std::pow\<close>, \<^verbatim>\<open>std::ceil\<close>); it is the argument \<open>calc\<close>, and
  the false positive probability is of any type \<open>'p\<close>.
\<close>

fun create_loop ::
  "(nat \<Rightarrow> nat \<Rightarrow> 'p \<Rightarrow> nat) \<Rightarrow> string \<Rightarrow> string \<Rightarrow> string \<Rightarrow> nat \<Rightarrow> nat \<Rightarrow> 'p \<Rightarrow> node list
     \<Rightarrow> create_call list \<Rightarrow> msbf_error + create_call list"
where
  "create_loop calc ext in_dir out_dir batch_size k fpp [] calls = Inr calls"
| "create_loop calc ext in_dir out_dir batch_size k fpp (Regular_file name sz h # ns) calls =
     create_loop calc ext in_dir out_dir batch_size k fpp ns calls"
| "create_loop calc ext in_dir out_dir batch_size k fpp (Directory name sub # ns) calls =
     (case max_sample_size ext sub 0 of
        Inl e \<Rightarrow> Inl e
      | Inr max_file_size \<Rightarrow>
          create_loop calc ext in_dir out_dir batch_size k fpp ns
            (calls @ [\<lparr>samples_dir = in_dir @ ''/'' @ name,
                       bloom_dir = out_dir @ ''/'' @ name,
                       filter_size = calc (max_file_size div 8) k fpp,
                       block_size = batch_size div 8,
                       hashes_used = k\<rparr>]))"

definition create_bloom_filters_from_samples ::
  "(nat \<Rightarrow> nat \<Rightarrow> 'p \<Rightarrow> nat) \<Rightarrow> string \<Rightarrow> string \<Rightarrow> string \<Rightarrow> nat \<Rightarrow> nat \<Rightarrow> 'p \<Rightarrow> node list
     \<Rightarrow> msbf_error + create_call list"
where
  "create_bloom_filters_from_samples calc ext in_dir out_dir batch_size k fpp nodes =
     (if batch_size mod 8 \<noteq> 0 then Inl (Assert_failed ''batch_size % 8 == 0'')
      else create_loop calc ext in_dir out_dir batch_size k fpp nodes [])"

text \<open>
  The inner loop of \<^verbatim>\<open>genome::msbf::combine_bloom_filters\<close>: the header of the first
  entry with the extension of a Bloom filter, \<open>(0, 0)\<close> where there is none.
\<close>

fun first_header :: "string \<Rightarrow> node list \<Rightarrow> msbf_error + nat \<times> nat" where
  "first_header ext [] = Inr (0, 0)"
| "first_header ext (Regular_file name sz h # ns) =
     (if boost_extension name = ext
      then (case h of
              None \<Rightarrow> Inl (Deserialize_error name)
            | Some bfh \<Rightarrow> Inr (bloom_filter_size bfh, num_hashes bfh))
      else first_header ext ns)"
| "first_header ext (Directory name sub # ns) =
     (if boost_extension name = ext then Inl (Deserialize_error name)
      else first_header ext ns)"

text \<open>
  \<^verbatim>\<open>genome::bloom_filter::combine_bloom_filters(in, out, bloom_filter_size, num_hashes,
  batch_size)\<close> is called with the entries of the directory \<open>in\<close>; it answers with its
  boolean and with the entries it has written to \<open>out\<close>.
\<close>

type_synonym combiner = "node list \<Rightarrow> nat \<Rightarrow> nat \<Rightarrow> nat \<Rightarrow> bool \<times> node list"

text \<open>
  \<^verbatim>\<open>genome::msbf::combine_bloom_filters(in_dir, out_dir, batch_size)\<close> on the entries of
  \<open>in_dir\<close>: its boolean, and the entries of \<open>out_dir\<close> afterwards.
\<close>

fun combine_loop ::
  "combiner \<Rightarrow> string \<Rightarrow> nat \<Rightarrow> node list \<Rightarrow> bool \<Rightarrow> node list \<Rightarrow> msbf_error + bool \<times> node list"
where
  "combine_loop cmb ext batch_size [] all_combined out = Inr (all_combined, out)"
| "combine_loop cmb ext batch_size (Regular_file name sz h # ns) all_combined out =
     combine_loop cmb ext batch_size ns all_combined out"
| "combine_loop cmb ext batch_size (Directory name sub # ns) all_combined out =
     (case first_header ext sub of
        Inl e \<Rightarrow> Inl e
      | Inr (bfs, nh) \<Rightarrow>
          if bfs \<noteq> 0
          then (case cmb sub bfs nh batch_size of
                  (r, written) \<Rightarrow>
                    combine_loop cmb ext batch_size ns r (out @ [Directory name written]))
          else combine_loop cmb ext batch_size ns all_combined out)"

definition combine_bloom_filters ::
  "combiner \<Rightarrow> string \<Rightarrow> node list \<Rightarrow> nat \<Rightarrow> msbf_error + bool \<times> node list"
where
  "combine_bloom_filters cmb ext in_dir batch_size = combine_loop cmb ext batch_size in_dir False []"

text \<open>
  The loop of \<^verbatim>\<open>create_msbf_from_samples\<close>,
  \<^verbatim>\<open>while (!combine_bloom_filters(bloom_dir + iteration, bloom_dir + (iteration + 1), ...)) iteration++\<close>,
  from the entries of the directory of level \<open>iteration\<close> (\<open>None\<close> where that
  directory does not exist: its iterator throws). The directory of the next level exists
  once something has been written to it. The loop returns the last level read and what
  was written above it.
\<close>

partial_function (option) merge_loop ::
  "combiner \<Rightarrow> string \<Rightarrow> nat \<Rightarrow> node list option \<Rightarrow> nat \<Rightarrow> (msbf_error + nat \<times> node list) option"
where
  "merge_loop cmb ext batch_size in_dir iteration =
     (case in_dir of
        None \<Rightarrow> Some (Inl (No_such_directory iteration))
      | Some nodes \<Rightarrow>
          (case combine_bloom_filters cmb ext nodes batch_size of
             Inl e \<Rightarrow> Some (Inl e)
           | Inr (all_combined, out) \<Rightarrow>
               if all_combined then Some (Inr (iteration, out))
               else merge_loop cmb ext batch_size (if out = [] then None else Some out)
                      (iteration + 1)))"

text \<open>
  Modelled from the spec: \<^verbatim>\<open>genome::bloom_filter::combine_bloom_filters\<close> is not among the
  sources. The specification of the merger: combine each \<open>B\<close> consecutive blocks into one
  block of the next level, until one block remains. The blocks of a directory are its
  regular files with the extension of a Bloom filter; each run of \<open>batch_size\<close> of them
  becomes one block, named after the first of the run, and the answer is whether at most
  one block was written.
\<close>

function runs_of :: "nat \<Rightarrow> 'a list \<Rightarrow> 'a list list" where
  "runs_of b xs = (if b = 0 \<or> xs = [] then [] else take b xs # runs_of b (drop b xs))"
  by pat_completeness auto
termination
  by (relation "measure (\<lambda>(b, xs). length xs)") auto

definition merged_block :: "nat \<Rightarrow> nat \<Rightarrow> node list \<Rightarrow> node" where
  "merged_block bfs nh run =
     Regular_file (node_name (hd run)) (sum_list (map node_size run))
       (Some \<lparr>bloom_filter_size = bfs, num_hashes = nh\<rparr>)"

definition bloom_filter_combine :: "string \<Rightarrow> combiner" where
  "bloom_filter_combine ext sub bfs nh batch_size =
     (let written = map (merged_block bfs nh) (runs_of batch_size (filter (regular_with ext) sub))
      in (length written \<le> 1, written))"

text \<open>
  A level that the loop can read: in each of its directories every entry with the
  extension of a Bloom filter is a regular file with a header whose size is not 0, and
  there is at least one block.
\<close>

definition block_ok :: "string \<Rightarrow> node \<Rightarrow> bool" where
  "block_ok ext n =
     (case n of
        Regular_file name sz h \<Rightarrow>
          (if boost_extension name = ext
           then (case h of None \<Rightarrow> False | Some bfh \<Rightarrow> 0 < bloom_filter_size bfh)
           else True)
      | Directory name sub \<Rightarrow> boost_extension name \<noteq> ext)"

fun group_ok :: "string \<Rightarrow> node \<Rightarrow> bool" where
  "group_ok ext (Regular_file name sz h) = True"
| "group_ok ext (Directory name sub) = list_all (block_ok ext) sub"

text \<open>The number of blocks of a level: those of its directories.\<close>

fun blocks_of :: "string \<Rightarrow> node \<Rightarrow> nat" where
  "blocks_of ext (Regular_file name sz h) = 0"
| "blocks_of ext (Directory name sub) = length (filter (regular_with ext) sub)"

definition level_blocks :: "string \<Rightarrow> node list \<Rightarrow> nat" where
  "level_blocks ext nodes = sum_list (map (blocks_of ext) nodes)"

definition well_formed_level :: "string \<Rightarrow> node list \<Rightarrow> bool" where
  "well_formed_level ext nodes = (list_all (group_ok ext) nodes \<and> 0 < level_blocks ext nodes)"

section \<open>Properties of the document list\<close>

subsection \<open>The comparison of entries\<close>

text \<open>
  C5, as the specification states it, fails: two entries of one file are equivalent under
  the comparison although their sub-document indices differ, and the one with the smaller
  index does not come first.
\<close>

theorem DocumentEntry_less_ignores_subdoc_index:
  "\<not> DocumentEntry_less path_elements
      \<lparr>entry_path = ''a.fasta'', entry_type = Fasta, entry_size = 10, subdoc_index = 0\<rparr>
      \<lparr>entry_path = ''a.fasta'', entry_type = Fasta, entry_size = 10, subdoc_index = 1\<rparr> \<and>
   \<not> DocumentEntry_less path_elements
      \<lparr>entry_path = ''a.fasta'', entry_type = Fasta, entry_size = 10, subdoc_index = 1\<rparr>
      \<lparr>entry_path = ''a.fasta'', entry_type = Fasta, entry_size = 10, subdoc_index = 0\<rparr> \<and>
   \<lparr>entry_path = ''a.fasta'', entry_type = Fasta, entry_size = 10, subdoc_index = 0\<rparr> \<noteq>
   \<lparr>entry_path = ''a.fasta'', entry_type = Fasta, entry_size = 10, subdoc_index = (1::nat)\<rparr>"
  by (simp add: DocumentEntry_less_def)

text \<open>
  C5, amended: the comparison orders entries by their paths alone, whatever the linear
  order of paths is. It is irreflexive and transitive, and two entries are equivalent
  under it (neither comes before the other) exactly when their paths are equal for
  \<^verbatim>\<open>fs::path\<close>, whatever their sub-document indices; so two entries of one path are never
  ordered.
\<close>

theorem DocumentEntry_less_orders_by_path:
  fixes path_key :: "path \<Rightarrow> 'k::linorder"
  shows "(DocumentEntry_less path_key a b \<longleftrightarrow> path_key (entry_path a) < path_key (entry_path b)) \<and>
   \<not> DocumentEntry_less path_key a a \<and>
   (DocumentEntry_less path_key a b \<and> DocumentEntry_less path_key b c
      \<longrightarrow> DocumentEntry_less path_key a c) \<and>
   ((\<not> DocumentEntry_less path_key a b \<and> \<not> DocumentEntry_less path_key b a)
      \<longleftrightarrow> path_key (entry_path a) = path_key (entry_path b)) \<and>
   (entry_path a = entry_path b \<longrightarrow> \<not> DocumentEntry_less path_key a b)"
  by (auto simp: DocumentEntry_less_def)

theorem DocumentEntry_less_orders_by_path_witness:
  "DocumentEntry_less path_elements
     \<lparr>entry_path = ''d/a/x.txt'', entry_type = Text, entry_size = 3, subdoc_index = 0\<rparr>
     \<lparr>entry_path = ''d/a.b/x.txt'', entry_type = Text, entry_size = 2, subdoc_index = 0\<rparr> \<and>
   DocumentEntry_less path_elements
     \<lparr>entry_path = ''d/a.b/x.txt'', entry_type = Text, entry_size = 2, subdoc_index = 0\<rparr>
     \<lparr>entry_path = ''d/c.fasta'', entry_type = Fasta, entry_size = 1, subdoc_index = 4\<rparr> \<and>
   DocumentEntry_less path_elements
     \<lparr>entry_path = ''d/a/x.txt'', entry_type = Text, entry_size = 3, subdoc_index = 0\<rparr>
     \<lparr>entry_path = ''d/c.fasta'', entry_type = Fasta, entry_size = 1, subdoc_index = 4\<rparr> \<and>
   \<not> DocumentEntry_less path_elements
     \<lparr>entry_path = ''a//b.txt'', entry_type = Text, entry_size = 3, subdoc_index = 0\<rparr>
     \<lparr>entry_path = ''a/b.txt'', entry_type = Text, entry_size = 3, subdoc_index = 0\<rparr>"
proof -
  let ?a = "\<lparr>entry_path = ''d/a/x.txt'', entry_type = Text, entry_size = 3, subdoc_index = 0\<rparr>"
  let ?b = "\<lparr>entry_path = ''d/a.b/x.txt'', entry_type = Text, entry_size = 2, subdoc_index = 0\<rparr>"
  let ?c = "\<lparr>entry_path = ''d/c.fasta'', entry_type = Fasta, entry_size = 1, subdoc_index = 4\<rparr>"
  let ?d = "\<lparr>entry_path = ''a//b.txt'', entry_type = Text, entry_size = 3, subdoc_index = 0\<rparr>"
  let ?e = "\<lparr>entry_path = ''a/b.txt'', entry_type = Text, entry_size = 3, subdoc_index = 0\<rparr>"
  have ab: "DocumentEntry_less path_elements ?a ?b"
    and bc: "DocumentEntry_less path_elements ?b ?c"
    by (simp_all add: DocumentEntry_less_def path_elements_def)
  from DocumentEntry_less_orders_by_path [of path_elements ?a ?b ?c] ab bc
  have ac: "DocumentEntry_less path_elements ?a ?c" by blast
  have "path_elements (entry_path ?d) = path_elements (entry_path ?e)"
    by (simp add: path_elements_def)
  with DocumentEntry_less_orders_by_path [of path_elements ?d ?e ?e]
  have de: "\<not> DocumentEntry_less path_elements ?d ?e" by blast
  from ab bc ac de show ?thesis by blast
qed

subsection \<open>Files with the extension of a Fastq document\<close>

text \<open>
  C4 fails on the code: \<open>accept\<close> takes a file with the extension \<^verbatim>\<open>.fastq\<close> under the
  filters \<open>Any\<close> and \<open>Fastq\<close>, and \<open>add\<close> has no branch for it, so the file adds no entry
  to the list.
\<close>

theorem fastq_accepted_but_not_added:
  "accept ''reads/sample.fastq'' Any \<and> accept ''reads/sample.fastq'' Fastq \<and>
   add fs ''reads/sample.fastq'' entries = Inr entries \<and>
   scan fs Any [''reads/sample.fastq''] [] = Inr [] \<and>
   scan fs Fastq [''reads/sample.fastq''] [] = Inr []"
  by (simp add: add_def extension_def filename_def)

subsection \<open>The constructors sort by path\<close>

lemma std_sort_by_path:
  "std_sort (DocumentEntry_less path_key) xs ys \<Longrightarrow>
   sorted (map (\<lambda>e. path_key (entry_path e)) ys)"
  by (simp add: std_sort_def DocumentEntry_less_def not_less sorted_map)

text \<open>Every vector has a sorted arrangement: the first constructor returns.\<close>

lemma DocumentList_of_vector_returns: "\<exists>dl. DocumentList_of_vector path_key lst dl"
proof -
  let ?k = "\<lambda>e. path_key (entry_path e)"
  have "sorted_wrt (\<lambda>a b. ?k a \<le> ?k b) (sort_key ?k lst)"
    using sorted_sort_key [of ?k lst] by (simp add: sorted_map)
  then have "std_sort (DocumentEntry_less path_key) lst (sort_key ?k lst)"
    by (simp add: std_sort_def DocumentEntry_less_def not_less)
  then have "DocumentList_of_vector path_key lst \<lparr>doc_list = sort_key ?k lst\<rparr>"
    by (simp add: DocumentList_of_vector_def)
  then show ?thesis ..
qed

subsection \<open>Batches\<close>

lemma first_nonempty_snoc:
  "first_nonempty (xs @ [f]) = (if first_nonempty xs = [] then f else first_nonempty xs)"
  by (induction xs) (auto simp: first_nonempty_def)

lemma first_nonempty_hd: "xs \<noteq> [] \<Longrightarrow> hd xs \<noteq> [] \<Longrightarrow> first_nonempty xs = hd xs"
  by (cases xs) (auto simp: first_nonempty_def)

text \<open>The runs handed to the functor, one after the other, are the entries in order.\<close>

lemma loop_concat:
  "rest \<noteq> [] \<or> batch = [] \<Longrightarrow>
   concat (map (fst \<circ> snd) (process_batches_loop bn bs rest first j batch)) = batch @ rest"
proof (induction rest arbitrary: first j batch)
  case Nil
  then show ?case by simp
next
  case (Cons d rest)
  show ?case
  proof (cases "length (batch @ [d]) = bs \<or> rest = []")
    case True
    then show ?thesis using Cons.IH [of "[]"] by (simp add: Let_def)
  next
    case False
    then have "rest \<noteq> []" by simp
    then show ?thesis using False Cons.IH [of "batch @ [d]"] by (simp add: Let_def)
  qed
qed

lemma process_batches_concat:
  "concat (map (fst \<circ> snd) (process_batches bn dl batch_size)) = doc_list dl"
  by (simp add: process_batches_def loop_concat)

text \<open>No run is empty or longer than the batch size.\<close>

lemma loop_lengths:
  "0 < bs \<Longrightarrow> length batch < bs \<Longrightarrow>
   c \<in> set (process_batches_loop bn bs rest first j batch) \<Longrightarrow>
   fst (snd c) \<noteq> [] \<and> length (fst (snd c)) \<le> bs"
proof (induction rest arbitrary: first j batch)
  case Nil
  then show ?case by simp
next
  case (Cons d rest)
  let ?f = "if first = [] then bn (entry_path d) else first"
  show ?case
  proof (cases "length (batch @ [d]) = bs \<or> rest = []")
    case True
    with Cons.prems
    have "c = (j, batch @ [d], ''['' @ ?f @ ''-'' @ bn (entry_path d) @ '']'')
       \<or> c \<in> set (process_batches_loop bn bs rest [] (j + 1) [])"
      by (auto simp: Let_def)
    then show ?thesis
    proof
      assume "c = (j, batch @ [d], ''['' @ ?f @ ''-'' @ bn (entry_path d) @ '']'')"
      then show ?thesis using Cons.prems(2) by simp
    next
      assume "c \<in> set (process_batches_loop bn bs rest [] (j + 1) [])"
      then show ?thesis using Cons.IH [of "[]"] Cons.prems(1) by simp
    qed
  next
    case False
    with Cons.prems
    have "c \<in> set (process_batches_loop bn bs rest ?f j (batch @ [d]))"
      by (auto simp: Let_def)
    moreover have "length (batch @ [d]) < bs"
      using False Cons.prems(2) by simp
    ultimately show ?thesis using Cons.IH Cons.prems(1) by blast
  qed
qed

text \<open>Every run but the last is of the batch size exactly.\<close>

lemma loop_full:
  "0 < bs \<Longrightarrow> length batch < bs \<Longrightarrow>
   c \<in> set (butlast (process_batches_loop bn bs rest first j batch)) \<Longrightarrow>
   length (fst (snd c)) = bs"
proof (induction rest arbitrary: first j batch)
  case Nil
  then show ?case by simp
next
  case (Cons d rest)
  let ?f = "if first = [] then bn (entry_path d) else first"
  show ?case
  proof (cases "rest = []")
    case True
    then show ?thesis using Cons.prems by (simp add: Let_def)
  next
    case rest: False
    show ?thesis
    proof (cases "length (batch @ [d]) = bs")
      case True
      with Cons.prems rest
      have "c = (j, batch @ [d], ''['' @ ?f @ ''-'' @ bn (entry_path d) @ '']'')
         \<or> c \<in> set (butlast (process_batches_loop bn bs rest [] (j + 1) []))"
        by (auto simp: Let_def split: if_splits)
      then show ?thesis using True Cons.IH [of "[]"] Cons.prems(1) by auto
    next
      case False
      with Cons.prems rest
      have "c \<in> set (butlast (process_batches_loop bn bs rest ?f j (batch @ [d])))"
        by (auto simp: Let_def)
      moreover have "length (batch @ [d]) < bs"
        using False Cons.prems(2) by simp
      ultimately show ?thesis using Cons.IH Cons.prems(1) by blast
    qed
  qed
qed

text \<open>
  The name of a run: between the brackets, the first basename of the run that is not
  empty, and the basename of its last entry.
\<close>

lemma loop_names:
  "first = first_nonempty (map (\<lambda>e. bn (entry_path e)) batch) \<Longrightarrow>
   c \<in> set (process_batches_loop bn bs rest first j batch) \<Longrightarrow>
   snd (snd c) = ''['' @ first_nonempty (map (\<lambda>e. bn (entry_path e)) (fst (snd c))) @ ''-'' @
       bn (entry_path (last (fst (snd c)))) @ '']''"
proof (induction rest arbitrary: first j batch)
  case Nil
  then show ?case by simp
next
  case (Cons d rest)
  let ?f = "if first = [] then bn (entry_path d) else first"
  have f: "?f = first_nonempty (map (\<lambda>e. bn (entry_path e)) (batch @ [d]))"
    using Cons.prems(1) by (simp add: first_nonempty_snoc)
  show ?case
  proof (cases "length (batch @ [d]) = bs \<or> rest = []")
    case True
    with Cons.prems
    have "c = (j, batch @ [d], ''['' @ ?f @ ''-'' @ bn (entry_path d) @ '']'')
       \<or> c \<in> set (process_batches_loop bn bs rest [] (j + 1) [])"
      by (auto simp: Let_def)
    then show ?thesis
    proof
      assume "c = (j, batch @ [d], ''['' @ ?f @ ''-'' @ bn (entry_path d) @ '']'')"
      then show ?thesis using f by simp
    next
      assume "c \<in> set (process_batches_loop bn bs rest [] (j + 1) [])"
      then show ?thesis using Cons.IH [of "[]" "[]"] by (simp add: first_nonempty_def)
    qed
  next
    case False
    with Cons.prems
    have "c \<in> set (process_batches_loop bn bs rest ?f j (batch @ [d]))"
      by (auto simp: Let_def)
    then show ?thesis using Cons.IH [OF f] by blast
  qed
qed

text \<open>
  C6, as the specification states it, fails on a run whose first entry has an empty
  basename: \<^verbatim>\<open>first_filename\<close> is then taken from a later entry. With the two entries
  below in one run the name handed to the functor is \<^verbatim>\<open>[b-b]\<close>, where the basenames of the
  first and the last entry give \<^verbatim>\<open>[-b]\<close>.
\<close>

theorem process_batches_empty_base_name:
  "process_batches base_name
     \<lparr>doc_list = [\<lparr>entry_path = '''', entry_type = Text, entry_size = 5, subdoc_index = 0\<rparr>,
                  \<lparr>entry_path = ''b.txt'', entry_type = Text, entry_size = 7, subdoc_index = 0\<rparr>]\<rparr> 2 =
     [(1, [\<lparr>entry_path = '''', entry_type = Text, entry_size = 5, subdoc_index = 0\<rparr>,
           \<lparr>entry_path = ''b.txt'', entry_type = Text, entry_size = 7, subdoc_index = 0\<rparr>], ''[b-b]'')] \<and>
   ''['' @ base_name '''' @ ''-'' @ base_name ''b.txt'' @ '']'' = ''[-b]''"
  by (simp add: process_batches_def base_name_def filename_def)

text \<open>
  C6, amended: for every document list and every batch size of at least 1, the runs
  handed to the functor are consecutive, none is empty or longer than the batch size, all
  but the last are of the batch size exactly, and in the order of the calls they make up
  the list; every run whose first entry has a basename that is not empty is handed the
  name built from the basenames of its first and its last entry.
\<close>

theorem process_batches_runs:
  assumes "1 \<le> batch_size"
  shows "concat (map (fst \<circ> snd) (process_batches bn dl batch_size)) = doc_list dl \<and>
    (\<forall>c \<in> set (process_batches bn dl batch_size).
        fst (snd c) \<noteq> [] \<and> length (fst (snd c)) \<le> batch_size \<and>
        (bn (entry_path (hd (fst (snd c)))) \<noteq> [] \<longrightarrow>
           snd (snd c) = ''['' @ bn (entry_path (hd (fst (snd c)))) @ ''-'' @
                         bn (entry_path (last (fst (snd c)))) @ '']'')) \<and>
    (\<forall>c \<in> set (butlast (process_batches bn dl batch_size)). length (fst (snd c)) = batch_size)"
proof (intro conjI ballI impI)
  show "concat (map (fst \<circ> snd) (process_batches bn dl batch_size)) = doc_list dl"
    by (rule process_batches_concat)
next
  fix c assume c: "c \<in> set (process_batches bn dl batch_size)"
  then have "fst (snd c) \<noteq> [] \<and> length (fst (snd c)) \<le> batch_size"
    using assms loop_lengths [of batch_size "[]" c bn "doc_list dl" "[]" 1]
    by (simp add: process_batches_def)
  then show "fst (snd c) \<noteq> []" and "length (fst (snd c)) \<le> batch_size" by simp_all
  assume ne: "bn (entry_path (hd (fst (snd c)))) \<noteq> []"
  have "snd (snd c) = ''['' @ first_nonempty (map (\<lambda>e. bn (entry_path e)) (fst (snd c))) @ ''-'' @
       bn (entry_path (last (fst (snd c)))) @ '']''"
    using c loop_names [of "[]" bn "[]" c batch_size "doc_list dl" 1]
    by (simp add: process_batches_def first_nonempty_def)
  moreover have "first_nonempty (map (\<lambda>e. bn (entry_path e)) (fst (snd c))) = bn (entry_path (hd (fst (snd c))))"
    using first_nonempty_hd [of "map (\<lambda>e. bn (entry_path e)) (fst (snd c))"] ne \<open>fst (snd c) \<noteq> []\<close>
    by (simp add: hd_map)
  ultimately show "snd (snd c) = ''['' @ bn (entry_path (hd (fst (snd c)))) @ ''-'' @
                         bn (entry_path (last (fst (snd c)))) @ '']''" by simp
next
  fix c assume "c \<in> set (butlast (process_batches bn dl batch_size))"
  then show "length (fst (snd c)) = batch_size"
    using assms loop_full [of batch_size "[]" c bn "doc_list dl" "[]" 1]
    by (simp add: process_batches_def)
qed

theorem process_batches_runs_witness:
  "(1::nat) \<le> 2 \<and>
   process_batches base_name
     \<lparr>doc_list = [\<lparr>entry_path = ''in/a.txt'', entry_type = Text, entry_size = 5, subdoc_index = 0\<rparr>,
                  \<lparr>entry_path = ''in/b.txt'', entry_type = Text, entry_size = 7, subdoc_index = 0\<rparr>,
                  \<lparr>entry_path = ''in/c.txt'', entry_type = Text, entry_size = 9, subdoc_index = 0\<rparr>]\<rparr> 2 =
     [(1, [\<lparr>entry_path = ''in/a.txt'', entry_type = Text, entry_size = 5, subdoc_index = 0\<rparr>,
           \<lparr>entry_path = ''in/b.txt'', entry_type = Text, entry_size = 7, subdoc_index = 0\<rparr>], ''[a-b]''),
      (2, [\<lparr>entry_path = ''in/c.txt'', entry_type = Text, entry_size = 9, subdoc_index = 0\<rparr>], ''[c-c]'')] \<and>
   concat (map (fst \<circ> snd) (process_batches base_name
     \<lparr>doc_list = [\<lparr>entry_path = ''in/a.txt'', entry_type = Text, entry_size = 5, subdoc_index = 0\<rparr>,
                  \<lparr>entry_path = ''in/b.txt'', entry_type = Text, entry_size = 7, subdoc_index = 0\<rparr>,
                  \<lparr>entry_path = ''in/c.txt'', entry_type = Text, entry_size = 9, subdoc_index = 0\<rparr>]\<rparr> 2)) =
     [\<lparr>entry_path = ''in/a.txt'', entry_type = Text, entry_size = 5, subdoc_index = 0\<rparr>,
      \<lparr>entry_path = ''in/b.txt'', entry_type = Text, entry_size = 7, subdoc_index = 0\<rparr>,
      \<lparr>entry_path = ''in/c.txt'', entry_type = Text, entry_size = 9, subdoc_index = 0\<rparr>]"
proof -
  have h: "(1::nat) \<le> 2" by simp
  have e: "process_batches base_name
     \<lparr>doc_list = [\<lparr>entry_path = ''in/a.txt'', entry_type = Text, entry_size = 5, subdoc_index = 0\<rparr>,
                  \<lparr>entry_path = ''in/b.txt'', entry_type = Text, entry_size = 7, subdoc_index = 0\<rparr>,
                  \<lparr>entry_path = ''in/c.txt'', entry_type = Text, entry_size = 9, subdoc_index = 0\<rparr>]\<rparr> 2 =
     [(1, [\<lparr>entry_path = ''in/a.txt'', entry_type = Text, entry_size = 5, subdoc_index = 0\<rparr>,
           \<lparr>entry_path = ''in/b.txt'', entry_type = Text, entry_size = 7, subdoc_index = 0\<rparr>], ''[a-b]''),
      (2, [\<lparr>entry_path = ''in/c.txt'', entry_type = Text, entry_size = 9, subdoc_index = 0\<rparr>], ''[c-c]'')]"
    by (simp add: process_batches_def base_name_def filename_def)
  from process_batches_runs [OF h, of base_name "\<lparr>doc_list = [\<lparr>entry_path = ''in/a.txt'', entry_type = Text, entry_size = 5, subdoc_index = 0\<rparr>,
                  \<lparr>entry_path = ''in/b.txt'', entry_type = Text, entry_size = 7, subdoc_index = 0\<rparr>,
                  \<lparr>entry_path = ''in/c.txt'', entry_type = Text, entry_size = 9, subdoc_index = 0\<rparr>]\<rparr>"]
  have "concat (map (fst \<circ> snd) (process_batches base_name
     \<lparr>doc_list = [\<lparr>entry_path = ''in/a.txt'', entry_type = Text, entry_size = 5, subdoc_index = 0\<rparr>,
                  \<lparr>entry_path = ''in/b.txt'', entry_type = Text, entry_size = 7, subdoc_index = 0\<rparr>,
                  \<lparr>entry_path = ''in/c.txt'', entry_type = Text, entry_size = 9, subdoc_index = 0\<rparr>]\<rparr> 2)) =
     [\<lparr>entry_path = ''in/a.txt'', entry_type = Text, entry_size = 5, subdoc_index = 0\<rparr>,
      \<lparr>entry_path = ''in/b.txt'', entry_type = Text, entry_size = 7, subdoc_index = 0\<rparr>,
      \<lparr>entry_path = ''in/c.txt'', entry_type = Text, entry_size = 9, subdoc_index = 0\<rparr>]"
    by simp
  with h e show ?thesis by blast
qed

text \<open>
  C10: when either constructor has returned, the entries are in ascending order of their
  paths, whatever the linear order of paths is, and so are the entries that
  \<open>process_batches\<close> hands on, run after run.
\<close>

theorem DocumentList_sorted_by_path:
  fixes path_key :: "path \<Rightarrow> 'k::linorder"
  shows "(DocumentList_of_vector path_key lst dl \<longrightarrow>
      sorted (map (\<lambda>e. path_key (entry_path e)) (doc_list dl)) \<and>
      sorted (map (\<lambda>e. path_key (entry_path e))
        (concat (map (fst \<circ> snd) (process_batches bn dl batch_size))))) \<and>
   (DocumentList_of_dir path_key fs dir flt (Inr dl) \<longrightarrow>
      sorted (map (\<lambda>e. path_key (entry_path e)) (doc_list dl)) \<and>
      sorted (map (\<lambda>e. path_key (entry_path e))
        (concat (map (fst \<circ> snd) (process_batches bn dl batch_size)))))"
proof (intro conjI impI)
  assume "DocumentList_of_vector path_key lst dl"
  then have "sorted (map (\<lambda>e. path_key (entry_path e)) (doc_list dl))"
    by (simp add: DocumentList_of_vector_def std_sort_by_path)
  then show "sorted (map (\<lambda>e. path_key (entry_path e)) (doc_list dl))"
    and "sorted (map (\<lambda>e. path_key (entry_path e))
        (concat (map (fst \<circ> snd) (process_batches bn dl batch_size))))"
    by (simp_all add: process_batches_concat)
next
  assume "DocumentList_of_dir path_key fs dir flt (Inr dl)"
  then have "sorted (map (\<lambda>e. path_key (entry_path e)) (doc_list dl))"
    by (auto simp: DocumentList_of_dir_def std_sort_by_path split: sum.splits)
  then show "sorted (map (\<lambda>e. path_key (entry_path e)) (doc_list dl))"
    and "sorted (map (\<lambda>e. path_key (entry_path e))
        (concat (map (fst \<circ> snd) (process_batches bn dl batch_size))))"
    by (simp_all add: process_batches_concat)
qed

theorem DocumentList_sorted_by_path_witness:
  "DocumentList_of_vector path_elements
     [\<lparr>entry_path = ''d/a.b/x.txt'', entry_type = Text, entry_size = 7, subdoc_index = 0\<rparr>,
      \<lparr>entry_path = ''d/a/x.txt'', entry_type = Text, entry_size = 5, subdoc_index = 0\<rparr>]
     \<lparr>doc_list =
        [\<lparr>entry_path = ''d/a/x.txt'', entry_type = Text, entry_size = 5, subdoc_index = 0\<rparr>,
         \<lparr>entry_path = ''d/a.b/x.txt'', entry_type = Text, entry_size = 7, subdoc_index = 0\<rparr>]\<rparr> \<and>
   DocumentList_of_dir path_elements
     \<lparr>file_size = (\<lambda>p. Some 5), fasta_file = (\<lambda>p. Some [3, 4])\<rparr>
     [''d/b.txt'', ''d/notes.md'', ''d/a.fasta''] Any
     (Inr \<lparr>doc_list =
        [\<lparr>entry_path = ''d/a.fasta'', entry_type = Fasta, entry_size = 3, subdoc_index = 0\<rparr>,
         \<lparr>entry_path = ''d/a.fasta'', entry_type = Fasta, entry_size = 4, subdoc_index = 1\<rparr>,
         \<lparr>entry_path = ''d/b.txt'', entry_type = Text, entry_size = 5, subdoc_index = 0\<rparr>]\<rparr>) \<and>
   sorted [[''d'', ''a'', ''x.txt''], [''d'', ''a.b'', ''x.txt'']] \<and>
   sorted [[''d'', ''a.fasta''], [''d'', ''a.fasta''], [''d'', ''b.txt'']]"
proof -
  let ?l = "[\<lparr>entry_path = ''d/a.b/x.txt'', entry_type = Text, entry_size = 7, subdoc_index = 0\<rparr>,
      \<lparr>entry_path = ''d/a/x.txt'', entry_type = Text, entry_size = 5, subdoc_index = 0\<rparr>]"
  let ?v = "\<lparr>doc_list =
        [\<lparr>entry_path = ''d/a/x.txt'', entry_type = Text, entry_size = 5, subdoc_index = 0\<rparr>,
         \<lparr>entry_path = ''d/a.b/x.txt'', entry_type = Text, entry_size = 7, subdoc_index = 0\<rparr>]\<rparr>"
  let ?d = "\<lparr>doc_list =
        [\<lparr>entry_path = ''d/a.fasta'', entry_type = Fasta, entry_size = 3, subdoc_index = 0\<rparr>,
         \<lparr>entry_path = ''d/a.fasta'', entry_type = Fasta, entry_size = 4, subdoc_index = 1\<rparr>,
         \<lparr>entry_path = ''d/b.txt'', entry_type = Text, entry_size = 5, subdoc_index = 0\<rparr>]\<rparr>"
  let ?fs = "\<lparr>file_size = (\<lambda>p. Some 5), fasta_file = (\<lambda>p. Some [3, 4])\<rparr>"
  let ?dir = "[''d/b.txt'', ''d/notes.md'', ''d/a.fasta'']"
  have v: "DocumentList_of_vector path_elements ?l ?v"
    by (simp add: DocumentList_of_vector_def std_sort_def DocumentEntry_less_def
        path_elements_def)
  have d: "DocumentList_of_dir path_elements ?fs ?dir Any (Inr ?d)"
    by (simp add: DocumentList_of_dir_def std_sort_def DocumentEntry_less_def add_def
        single_entry_def extension_def filename_def upt_rec path_elements_def)
  from DocumentList_sorted_by_path [of path_elements ?l ?v base_name 2 ?fs ?dir Any] v
  have "sorted (map (\<lambda>e. path_elements (entry_path e)) (doc_list ?v))" by blast
  then have sv: "sorted [[''d'', ''a'', ''x.txt''], [''d'', ''a.b'', ''x.txt'']]"
    by (simp add: path_elements_def)
  from DocumentList_sorted_by_path [of path_elements "[]" ?d base_name 2 ?fs ?dir Any] d
  have "sorted (map (\<lambda>e. path_elements (entry_path e)) (doc_list ?d))" by blast
  then have sd: "sorted [[''d'', ''a.fasta''], [''d'', ''a.fasta''], [''d'', ''b.txt'']]"
    by (simp add: path_elements_def)
  from v d sv sd show ?thesis by blast
qed

section \<open>Properties of the asynchronous backend\<close>

declare offsets_loop.simps [simp del]
declare setup_inner.simps [simp del]
declare setup_outer.simps [simp del]

subsection \<open>The base offsets\<close>










subsection \<open>The requests of a probe\<close>

text \<open>
  The set-up loops write the control blocks below the number \<open>S\<close> of sub-indices only.
  Whatever a probe submits from a block from \<open>S\<close> on is what that block held before the
  call.
\<close>

lemma setup_step_other:
  "setup_step a hashes rows i j iocbs = Inr iocbs' \<Longrightarrow>
   length iocbs' = length iocbs \<and> (k \<noteq> i \<longrightarrow> iocbs' ! k = iocbs ! k)"
  by (auto simp: setup_step_def Let_def split: if_splits)

lemma setup_inner_other:
  "setup_inner a hashes rows i j iocbs = Inr iocbs' \<Longrightarrow>
   length iocbs' = length iocbs \<and> (k \<noteq> i \<longrightarrow> iocbs' ! k = iocbs ! k)"
proof (induction a hashes rows i j iocbs rule: setup_inner.induct)
  case (1 a hashes rows i j iocbs)
  show ?case
  proof (cases "j < length hashes")
    case True
    with "1.prems" obtain mid where
      s: "setup_step a hashes rows i j iocbs = Inr mid" and
      r: "setup_inner a hashes rows i (Suc j) mid = Inr iocbs'"
      by (subst (asm) setup_inner.simps) (auto split: sum.splits)
    from "1.IH" [OF True s r] setup_step_other [OF s, of k] show ?thesis by simp
  next
    case False
    with "1.prems" show ?thesis by (subst (asm) setup_inner.simps) simp
  qed
qed

lemma setup_outer_untouched:
  "setup_outer a hashes rows i iocbs = Inr iocbs' \<Longrightarrow>
   length iocbs' = length iocbs \<and>
   (length (parameters (m_header a)) \<le> k \<or> k < i \<longrightarrow> iocbs' ! k = iocbs ! k)"
proof (induction a hashes rows i iocbs rule: setup_outer.induct)
  case (1 a hashes rows i iocbs)
  show ?case
  proof (cases "i < length (parameters (m_header a))")
    case True
    with "1.prems" obtain mid where
      s: "setup_inner a hashes rows i 0 iocbs = Inr mid" and
      r: "setup_outer a hashes rows (Suc i) mid = Inr iocbs'"
      by (subst (asm) setup_outer.simps) (auto split: sum.splits)
    from "1.IH" [OF True s r] setup_inner_other [OF s, of k] True show ?thesis by auto
  next
    case False
    with "1.prems" show ?thesis by (subst (asm) setup_outer.simps) simp
  qed
qed

lemma read_from_disk_stale:
  assumes "read_from_disk k a hashes rows = Inr (a', submitted)"
  shows "length submitted = length (parameters (m_header a)) * length hashes \<and>
    (\<forall>n < length submitted.
       length (parameters (m_header a)) \<le> m_iocbpp a ! n \<longrightarrow>
       submitted ! n = m_iocbs a ! (m_iocbpp a ! n))"
proof -
  let ?n = "length (parameters (m_header a)) * length hashes"
  from assms obtain iocbs where
    s: "setup_outer a hashes rows 0 (m_iocbs a) = Inr iocbs" and
    le: "?n \<le> length (m_iocbpp a)" and
    sub: "submitted = map (\<lambda>p. iocbs ! p) (take ?n (m_iocbpp a))"
    by (auto simp: read_from_disk_def Let_def split: sum.splits if_splits)
  from le sub have len: "length submitted = ?n" by simp
  have "submitted ! n = m_iocbs a ! (m_iocbpp a ! n)"
    if "n < length submitted" "length (parameters (m_header a)) \<le> m_iocbpp a ! n" for n
    using that len le sub setup_outer_untouched [OF s, of "m_iocbpp a ! n"] by simp
  with len show ?thesis by blast
qed

text \<open>
  C1 fails on the code. The index below has one sub-index (\<open>P = 4096\<close>, \<open>m_0 = 7\<close>, base
  offset 4096) and is probed with the hashes 3 and 5 and the buffer at address 65536. The
  loop writes every pair \<open>(i, j)\<close> into the control block \<open>i\<close>, so both hashes go to
  block 0, where the last one stays, and block 1 is never written. \<^verbatim>\<open>io_submit\<close> is
  handed two blocks: the read of the page at 24576 for hash 5, and block 1 as the
  constructor left it (offset 0, buffer 0). The page at 16384 for hash 3 is never
  requested.
\<close>

theorem read_from_disk_reuses_control_block:
  "aio_ctor
     \<lparr>get_page_size = 4096, open_file = 3, io_setup_ctx = 1, io_setup_ret = 0,
        io_submit_ret = 2, io_getevents_ret = 2\<rparr>
     \<lparr>page_size = 4096, parameters = [\<lparr>signature_size = 7\<rparr>]\<rparr> 4096
     [\<lparr>aio_fildes = 0, aio_lio_opcode = 0, aio_buf = 0, aio_nbytes = 0, aio_offset = 0\<rparr>,
      \<lparr>aio_fildes = 0, aio_lio_opcode = 0, aio_buf = 0, aio_nbytes = 0, aio_offset = 0\<rparr>] =
   Inr \<lparr>m_header = \<lparr>page_size = 4096, parameters = [\<lparr>signature_size = 7\<rparr>]\<rparr>,
        m_offsets = [4096], m_fd = 3, m_ctx = 1,
        m_iocbs = [\<lparr>aio_fildes = 3, aio_lio_opcode = 0, aio_buf = 0, aio_nbytes = 4096, aio_offset = 0\<rparr>,
                   \<lparr>aio_fildes = 3, aio_lio_opcode = 0, aio_buf = 0, aio_nbytes = 4096, aio_offset = 0\<rparr>],
        m_iocbpp = [0, 1]\<rparr> \<and>
   read_from_disk
     \<lparr>get_page_size = 4096, open_file = 3, io_setup_ctx = 1, io_setup_ret = 0,
        io_submit_ret = 2, io_getevents_ret = 2\<rparr>
     \<lparr>m_header = \<lparr>page_size = 4096, parameters = [\<lparr>signature_size = 7\<rparr>]\<rparr>,
        m_offsets = [4096], m_fd = 3, m_ctx = 1,
        m_iocbs = [\<lparr>aio_fildes = 3, aio_lio_opcode = 0, aio_buf = 0, aio_nbytes = 4096, aio_offset = 0\<rparr>,
                   \<lparr>aio_fildes = 3, aio_lio_opcode = 0, aio_buf = 0, aio_nbytes = 4096, aio_offset = 0\<rparr>],
        m_iocbpp = [0, 1]\<rparr>
     [3, 5] 65536 =
   Inr (\<lparr>m_header = \<lparr>page_size = 4096, parameters = [\<lparr>signature_size = 7\<rparr>]\<rparr>,
        m_offsets = [4096], m_fd = 3, m_ctx = 1,
        m_iocbs = [\<lparr>aio_fildes = 3, aio_lio_opcode = 0, aio_buf = 69632, aio_nbytes = 4096, aio_offset = 24576\<rparr>,
                   \<lparr>aio_fildes = 3, aio_lio_opcode = 0, aio_buf = 0, aio_nbytes = 4096, aio_offset = 0\<rparr>],
        m_iocbpp = [0, 1]\<rparr>,
       [\<lparr>aio_fildes = 3, aio_lio_opcode = 0, aio_buf = 69632, aio_nbytes = 4096, aio_offset = 24576\<rparr>,
        \<lparr>aio_fildes = 3, aio_lio_opcode = 0, aio_buf = 0, aio_nbytes = 4096, aio_offset = 0\<rparr>]) \<and>
   probe_pages
     \<lparr>m_header = \<lparr>page_size = 4096, parameters = [\<lparr>signature_size = 7\<rparr>]\<rparr>,
        m_offsets = [4096], m_fd = 3, m_ctx = 1,
        m_iocbs = [\<lparr>aio_fildes = 3, aio_lio_opcode = 0, aio_buf = 0, aio_nbytes = 4096, aio_offset = 0\<rparr>,
                   \<lparr>aio_fildes = 3, aio_lio_opcode = 0, aio_buf = 0, aio_nbytes = 4096, aio_offset = 0\<rparr>],
        m_iocbpp = [0, 1]\<rparr>
     [3, 5] = [(16384, 4096), (24576, 4096)]"
  by (simp add: aio_ctor_def offsets_loop.simps IOCB_CMD_PREAD_def upt_rec
      read_from_disk_def setup_outer.simps setup_inner.simps setup_step_def probe_pages_def)

subsection \<open>A short submission\<close>

text \<open>
  Where every signature size is positive and the object has a control block and an offset
  for each sub-index, the set-up loops run through, and \<^verbatim>\<open>io_submit\<close> is reached.
\<close>

lemma setup_inner_defined:
  assumes "signature_size (parameters (m_header a) ! i) \<noteq> 0"
    and "i < length iocbs" and "i < length (m_offsets a)"
  shows "\<exists>r. setup_inner a hashes rows i j iocbs = Inr r \<and> length r = length iocbs"
  using assms
proof (induction a hashes rows i j iocbs rule: setup_inner.induct)
  case (1 a hashes rows i j iocbs)
  show ?case
  proof (cases "j < length hashes")
    case True
    from "1.prems" obtain mid where s: "setup_step a hashes rows i j iocbs = Inr mid"
      and l: "length mid = length iocbs"
      by (auto simp: setup_step_def Let_def)
    from "1.IH" [OF True s] "1.prems" l
    obtain r where "setup_inner a hashes rows i (Suc j) mid = Inr r" "length r = length iocbs"
      by auto
    with True s show ?thesis by (subst setup_inner.simps) simp
  next
    case False
    then show ?thesis by (subst setup_inner.simps) simp
  qed
qed

lemma setup_outer_defined:
  assumes "list_all (\<lambda>p. signature_size p \<noteq> 0) (parameters (m_header a))"
    and "length (parameters (m_header a)) \<le> length iocbs"
    and "length (parameters (m_header a)) \<le> length (m_offsets a)"
  shows "\<exists>r. setup_outer a hashes rows i iocbs = Inr r"
  using assms
proof (induction a hashes rows i iocbs rule: setup_outer.induct)
  case (1 a hashes rows i iocbs)
  show ?case
  proof (cases "i < length (parameters (m_header a))")
    case True
    with "1.prems" have "signature_size (parameters (m_header a) ! i) \<noteq> 0"
      by (simp add: list_all_length)
    from setup_inner_defined [OF this, of iocbs hashes rows 0] True "1.prems"
    obtain mid where s: "setup_inner a hashes rows i 0 iocbs = Inr mid"
      and l: "length mid = length iocbs"
      by auto
    from "1.IH" [OF True s] "1.prems" l
    obtain r where "setup_outer a hashes rows (Suc i) mid = Inr r"
      by auto
    with True s show ?thesis by (subst setup_outer.simps) simp
  next
    case False
    then show ?thesis by (subst setup_outer.simps) simp
  qed
qed

text \<open>
  C2, as the specification states it, fails: on the index above, with two requests
  batched and one accepted by \<^verbatim>\<open>io_submit\<close>, the call does not return and reads nothing
  synchronously; it ends the process with the message of \<^verbatim>\<open>exit_error_errno\<close>.
\<close>

theorem read_from_disk_short_submission_exits:
  "read_from_disk
     \<lparr>get_page_size = 4096, open_file = 3, io_setup_ctx = 1, io_setup_ret = 0,
        io_submit_ret = 1, io_getevents_ret = 2\<rparr>
     \<lparr>m_header = \<lparr>page_size = 4096, parameters = [\<lparr>signature_size = 7\<rparr>]\<rparr>,
        m_offsets = [4096], m_fd = 3, m_ctx = 1,
        m_iocbs = [\<lparr>aio_fildes = 3, aio_lio_opcode = 0, aio_buf = 0, aio_nbytes = 4096, aio_offset = 0\<rparr>,
                   \<lparr>aio_fildes = 3, aio_lio_opcode = 0, aio_buf = 0, aio_nbytes = 4096, aio_offset = 0\<rparr>],
        m_iocbpp = [0, 1]\<rparr>
     [3, 5] 65536 = Inl (Exit_error ''io_submit error'')"
  by (simp add: read_from_disk_def setup_outer.simps setup_inner.simps setup_step_def)

text \<open>
  C2, amended: when \<^verbatim>\<open>io_submit\<close> is reached (the set-up loops have written the control
  blocks) and does not accept all the requests batched, the backend does not recover: the
  call reads nothing synchronously, returns no bytes and ends the process with the error
  of \<^verbatim>\<open>io_submit\<close>.
\<close>

theorem io_submit_short_is_fatal:
  assumes "setup_outer a hashes rows 0 (m_iocbs a) = Inr iocbs"
    and "io_submit_ret k \<noteq> int (length (parameters (m_header a)) * length hashes)"
  shows "read_from_disk k a hashes rows = Inl (Exit_error ''io_submit error'')"
  using assms by (simp add: read_from_disk_def Let_def)

theorem io_submit_short_is_fatal_witness:
  "setup_outer
     \<lparr>m_header = \<lparr>page_size = 4096, parameters = [\<lparr>signature_size = 7\<rparr>]\<rparr>,
        m_offsets = [4096], m_fd = 3, m_ctx = 1,
        m_iocbs = [\<lparr>aio_fildes = 3, aio_lio_opcode = 0, aio_buf = 0, aio_nbytes = 4096, aio_offset = 0\<rparr>,
                   \<lparr>aio_fildes = 3, aio_lio_opcode = 0, aio_buf = 0, aio_nbytes = 4096, aio_offset = 0\<rparr>],
        m_iocbpp = [0, 1]\<rparr>
     [3, 5, 6] 65536 0
     [\<lparr>aio_fildes = 3, aio_lio_opcode = 0, aio_buf = 0, aio_nbytes = 4096, aio_offset = 0\<rparr>,
      \<lparr>aio_fildes = 3, aio_lio_opcode = 0, aio_buf = 0, aio_nbytes = 4096, aio_offset = 0\<rparr>] =
   Inr [\<lparr>aio_fildes = 3, aio_lio_opcode = 0, aio_buf = 73728, aio_nbytes = 4096, aio_offset = 28672\<rparr>,
        \<lparr>aio_fildes = 3, aio_lio_opcode = 0, aio_buf = 0, aio_nbytes = 4096, aio_offset = 0\<rparr>] \<and>
   (2 :: int) \<noteq> int (length [\<lparr>signature_size = 7 :: u64\<rparr>] * length [3 :: u64, 5, 6]) \<and>
   read_from_disk
     \<lparr>get_page_size = 4096, open_file = 3, io_setup_ctx = 1, io_setup_ret = 0,
        io_submit_ret = 2, io_getevents_ret = 2\<rparr>
     \<lparr>m_header = \<lparr>page_size = 4096, parameters = [\<lparr>signature_size = 7\<rparr>]\<rparr>,
        m_offsets = [4096], m_fd = 3, m_ctx = 1,
        m_iocbs = [\<lparr>aio_fildes = 3, aio_lio_opcode = 0, aio_buf = 0, aio_nbytes = 4096, aio_offset = 0\<rparr>,
                   \<lparr>aio_fildes = 3, aio_lio_opcode = 0, aio_buf = 0, aio_nbytes = 4096, aio_offset = 0\<rparr>],
        m_iocbpp = [0, 1]\<rparr>
     [3, 5, 6] 65536 = Inl (Exit_error ''io_submit error'')"
proof -
  let ?k = "\<lparr>get_page_size = 4096, open_file = 3, io_setup_ctx = 1, io_setup_ret = 0,
        io_submit_ret = 2, io_getevents_ret = 2\<rparr>"
  let ?a = "\<lparr>m_header = \<lparr>page_size = 4096, parameters = [\<lparr>signature_size = 7\<rparr>]\<rparr>,
        m_offsets = [4096], m_fd = 3, m_ctx = 1,
        m_iocbs = [\<lparr>aio_fildes = 3, aio_lio_opcode = 0, aio_buf = 0, aio_nbytes = 4096, aio_offset = 0\<rparr>,
                   \<lparr>aio_fildes = 3, aio_lio_opcode = 0, aio_buf = 0, aio_nbytes = 4096, aio_offset = 0\<rparr>],
        m_iocbpp = [0, 1]\<rparr>"
  let ?r = "[\<lparr>aio_fildes = 3, aio_lio_opcode = 0, aio_buf = 73728, aio_nbytes = 4096, aio_offset = 28672\<rparr>,
        \<lparr>aio_fildes = 3, aio_lio_opcode = 0, aio_buf = 0, aio_nbytes = 4096, aio_offset = 0 :: u64\<rparr>]"
  have s: "setup_outer ?a [3, 5, 6] 65536 0 (m_iocbs ?a) = Inr ?r"
    by (simp add: setup_outer.simps setup_inner.simps setup_step_def)
  have h: "io_submit_ret ?k \<noteq> int (length (parameters (m_header ?a)) * length [3 :: u64, 5, 6])"
    by simp
  from io_submit_short_is_fatal [OF s h]
  have "read_from_disk ?k ?a [3, 5, 6] 65536 = Inl (Exit_error ''io_submit error'')" .
  with s h show ?thesis by simp
qed

section \<open>Properties of the multi-size build\<close>

subsection \<open>The filter size of a group\<close>

lemma max_sample_size_fold:
  "max_sample_size ext sub m = Inr r \<Longrightarrow>
   r = fold max (map node_size (filter (regular_with ext) sub)) m"
  by (induction ext sub m rule: max_sample_size.induct)
    (auto simp: regular_with_def max.commute split: if_splits)

lemma max_sample_size_Max:
  "max_sample_size ext sub 0 = Inr r \<Longrightarrow>
   r = Max (set (0 # map node_size (filter (regular_with ext) sub)))"
  using max_sample_size_fold [of ext sub 0 r] by (simp only: Max.set_eq_fold)

lemma create_loop_calls:
  "create_loop calc ext in_dir out_dir batch_size k fpp ns calls = Inr r \<Longrightarrow>
   r = calls @
     map (\<lambda>g. \<lparr>samples_dir = in_dir @ ''/'' @ node_name g,
               bloom_dir = out_dir @ ''/'' @ node_name g,
               filter_size =
                 calc (Max (set (0 # map node_size (filter (regular_with ext) (entries_of g)))) div 8)
                   k fpp,
               block_size = batch_size div 8,
               hashes_used = k\<rparr>)
       (filter is_directory ns)"
proof (induction calc ext in_dir out_dir batch_size k fpp ns calls rule: create_loop.induct)
  case (1 calc ext in_dir out_dir batch_size k fpp calls)
  then show ?case by simp
next
  case (2 calc ext in_dir out_dir batch_size k fpp name sz h ns calls)
  then show ?case by simp
next
  case (3 calc ext in_dir out_dir batch_size k fpp name sub ns calls)
  from "3.prems" obtain m where m: "max_sample_size ext sub 0 = Inr m"
    by (auto split: sum.splits)
  with "3.prems" "3.IH" [OF m] max_sample_size_Max [OF m] show ?case
    by simp
qed

text \<open>
  C8: \<^verbatim>\<open>create_bloom_filters_from_samples\<close> calls \<^verbatim>\<open>create_from_samples\<close> once for each
  directory of samples, in order, with the filter size computed from the largest size
  among its samples (0 where it has none); where the directory has a sample, that is the
  size computed from a largest document of the group, and it is the one size used for all
  of them.
\<close>

theorem group_filter_size_from_largest:
  assumes "create_bloom_filters_from_samples calc ext in_dir out_dir batch_size k fpp nodes = Inr calls"
  shows "calls =
     map (\<lambda>g. \<lparr>samples_dir = in_dir @ ''/'' @ node_name g,
               bloom_dir = out_dir @ ''/'' @ node_name g,
               filter_size =
                 calc (Max (set (0 # map node_size (filter (regular_with ext) (entries_of g)))) div 8)
                   k fpp,
               block_size = batch_size div 8,
               hashes_used = k\<rparr>)
       (filter is_directory nodes) \<and>
    (\<forall>g \<in> set (filter is_directory nodes).
       filter (regular_with ext) (entries_of g) \<noteq> [] \<longrightarrow>
       (\<exists>d \<in> set (filter (regular_with ext) (entries_of g)).
          (\<forall>e \<in> set (filter (regular_with ext) (entries_of g)). node_size e \<le> node_size d) \<and>
          calc (Max (set (0 # map node_size (filter (regular_with ext) (entries_of g)))) div 8) k fpp =
            calc (node_size d div 8) k fpp))"
proof (intro conjI ballI impI)
  from assms have "create_loop calc ext in_dir out_dir batch_size k fpp nodes [] = Inr calls"
    by (simp add: create_bloom_filters_from_samples_def split: if_splits)
  from create_loop_calls [OF this]
  show "calls =
     map (\<lambda>g. \<lparr>samples_dir = in_dir @ ''/'' @ node_name g,
               bloom_dir = out_dir @ ''/'' @ node_name g,
               filter_size =
                 calc (Max (set (0 # map node_size (filter (regular_with ext) (entries_of g)))) div 8)
                   k fpp,
               block_size = batch_size div 8,
               hashes_used = k\<rparr>)
       (filter is_directory nodes)"
    by simp
next
  fix g
  let ?docs = "filter (regular_with ext) (entries_of g)"
  assume ne: "?docs \<noteq> []"
  let ?S = "set (map node_size ?docs)"
  have fin: "finite ?S" by simp
  from ne have "set ?docs \<noteq> {}" by (simp only: set_empty not_False_eq_True)
  then have nonempty: "?S \<noteq> {}" by (simp only: set_map image_is_empty not_False_eq_True)
  from Max_in [OF fin nonempty] obtain d where d: "d \<in> set ?docs" "node_size d = Max ?S"
    by auto
  have le: "node_size e \<le> node_size d" if "e \<in> set ?docs" for e
    using that d(2) Max_ge [OF fin, of "node_size e"] by simp
  have "Max (set (0 # map node_size ?docs)) = Max ?S"
    using fin nonempty by (simp add: max_def)
  with d le show "\<exists>d \<in> set ?docs.
          (\<forall>e \<in> set ?docs. node_size e \<le> node_size d) \<and>
          calc (Max (set (0 # map node_size ?docs)) div 8) k fpp = calc (node_size d div 8) k fpp"
    by auto
qed

theorem group_filter_size_from_largest_witness:
  "create_bloom_filters_from_samples (\<lambda>n k p. n * k) ''.sam'' ''samples'' ''bloom1'' 8 3 ()
     [Directory ''1''
        [Regular_file ''a.sam'' 80 None, Regular_file ''b.sam'' 800 None,
         Regular_file ''c.txt'' 8000 None],
      Regular_file ''log'' 9 None,
      Directory ''2'' [Regular_file ''d.sam'' 1600 None]] =
   Inr [\<lparr>samples_dir = ''samples/1'', bloom_dir = ''bloom1/1'', filter_size = 300,
          block_size = 1, hashes_used = 3\<rparr>,
        \<lparr>samples_dir = ''samples/2'', bloom_dir = ''bloom1/2'', filter_size = 600,
          block_size = 1, hashes_used = 3\<rparr>] \<and>
   map filter_size
     [\<lparr>samples_dir = ''samples/1'', bloom_dir = ''bloom1/1'', filter_size = 300,
          block_size = 1, hashes_used = 3\<rparr>,
      \<lparr>samples_dir = ''samples/2'', bloom_dir = ''bloom1/2'', filter_size = 600,
          block_size = 1, hashes_used = 3\<rparr>] =
   [Max {0, 80, 800} div 8 * 3, Max {0, 1600 :: nat} div 8 * 3]"
proof -
  let ?nodes = "[Directory ''1''
        [Regular_file ''a.sam'' 80 None, Regular_file ''b.sam'' 800 None,
         Regular_file ''c.txt'' 8000 None],
      Regular_file ''log'' 9 None,
      Directory ''2'' [Regular_file ''d.sam'' 1600 None]]"
  let ?calls = "[\<lparr>samples_dir = ''samples/1'', bloom_dir = ''bloom1/1'', filter_size = 300,
          block_size = 1, hashes_used = 3\<rparr>,
        \<lparr>samples_dir = ''samples/2'', bloom_dir = ''bloom1/2'', filter_size = 600,
          block_size = 1, hashes_used = 3\<rparr>]"
  have run: "create_bloom_filters_from_samples (\<lambda>n k p. n * k) ''.sam'' ''samples'' ''bloom1'' 8 3 ()
      ?nodes = Inr ?calls"
    by (simp add: create_bloom_filters_from_samples_def boost_extension_def)
  from group_filter_size_from_largest [OF run]
  have "?calls =
     map (\<lambda>g. \<lparr>samples_dir = ''samples'' @ ''/'' @ node_name g,
               bloom_dir = ''bloom1'' @ ''/'' @ node_name g,
               filter_size =
                 (Max (set (0 # map node_size (filter (regular_with ''.sam'') (entries_of g)))) div 8) * 3,
               block_size = 8 div 8,
               hashes_used = 3\<rparr>)
       (filter is_directory ?nodes)"
    by blast
  then have "map filter_size ?calls =
      [Max {0, 80, 800} div 8 * 3, Max {0, 1600 :: nat} div 8 * 3]"
    by (simp add: regular_with_def boost_extension_def)
  with run show ?thesis by blast
qed

subsection \<open>The loop over the levels\<close>

declare runs_of.simps [simp del]

lemma runs_of_Nil [simp]: "runs_of b [] = []"
  by (subst runs_of.simps) simp

lemma runs_of_zero [simp]: "runs_of 0 xs = []"
  by (subst runs_of.simps) simp

lemma runs_of_step: "0 < b \<Longrightarrow> xs \<noteq> [] \<Longrightarrow> runs_of b xs = take b xs # runs_of b (drop b xs)"
  by (subst runs_of.simps) simp

lemma runs_of_length_le: "length (runs_of b xs) \<le> length xs"
proof (induction b xs rule: runs_of.induct)
  case (1 b xs)
  show ?case
  proof (cases "b = 0 \<or> xs = []")
    case True
    then show ?thesis by auto
  next
    case False
    then have "length (runs_of b (drop b xs)) \<le> length xs - b"
      using "1.IH" by simp
    moreover have "0 < length xs" and "0 < b" using False by simp_all
    ultimately have "Suc (length (runs_of b (drop b xs))) \<le> length xs"
      by arith
    then show ?thesis using False by (simp add: runs_of_step)
  qed
qed

lemma runs_of_shrinks:
  assumes "2 \<le> b" and "1 < length (runs_of b xs)"
  shows "length (runs_of b xs) < length xs"
proof -
  from assms have ne: "xs \<noteq> []" by auto
  with assms have step: "runs_of b xs = take b xs # runs_of b (drop b xs)"
    by (simp add: runs_of_step)
  with assms have "runs_of b (drop b xs) \<noteq> []" by auto
  then have "drop b xs \<noteq> []" by auto
  then have "b < length xs" by simp
  moreover have "length (runs_of b (drop b xs)) \<le> length xs - b"
    using runs_of_length_le [of b "drop b xs"] by simp
  ultimately show ?thesis using step assms(1) by simp
qed

lemma runs_of_nonempty: "0 < b \<Longrightarrow> xs \<noteq> [] \<Longrightarrow> runs_of b xs \<noteq> []"
  by (simp add: runs_of_step)

lemma runs_of_members:
  "r \<in> set (runs_of b xs) \<Longrightarrow> r \<noteq> [] \<and> set r \<subseteq> set xs"
proof (induction b xs rule: runs_of.induct)
  case (1 b xs)
  show ?case
  proof (cases "b = 0 \<or> xs = []")
    case True
    with "1.prems" show ?thesis by auto
  next
    case False
    with "1.prems" have "r = take b xs \<or> r \<in> set (runs_of b (drop b xs))"
      by (simp add: runs_of_step)
    then show ?thesis
    proof
      assume "r = take b xs"
      then show ?thesis using False by (auto dest: in_set_takeD)
    next
      assume "r \<in> set (runs_of b (drop b xs))"
      then have "r \<noteq> [] \<and> set r \<subseteq> set (drop b xs)" using "1.IH" False by simp
      then show ?thesis by (auto dest: in_set_dropD)
    qed
  qed
qed

text \<open>What the modelled merger writes are blocks again.\<close>

lemma merged_block_is_block:
  assumes "r \<in> set (runs_of b (filter (regular_with ext) sub))"
  shows "regular_with ext (merged_block bfs nh r)"
proof -
  from runs_of_members [OF assms] have "r \<noteq> []" and "set r \<subseteq> set (filter (regular_with ext) sub)"
    by simp_all
  then have "regular_with ext (hd r)" by (cases r) auto
  then show ?thesis
    by (cases "hd r") (simp_all add: regular_with_def merged_block_def)
qed

lemma written_blocks:
  "bloom_filter_combine ext sub bfs nh b = (r, written) \<Longrightarrow>
   filter (regular_with ext) written = written \<and>
   length written = length (runs_of b (filter (regular_with ext) sub)) \<and>
   r = (length written \<le> 1)"
  by (auto simp: bloom_filter_combine_def Let_def merged_block_is_block intro!: filter_True)

lemma level_blocks_append [simp]:
  "level_blocks ext (xs @ ys) = level_blocks ext xs + level_blocks ext ys"
  by (simp add: level_blocks_def)

lemma level_blocks_Cons [simp]:
  "level_blocks ext (n # ns) = blocks_of ext n + level_blocks ext ns"
  by (simp add: level_blocks_def)

lemma level_blocks_Nil [simp]: "level_blocks ext [] = 0"
  by (simp add: level_blocks_def)

text \<open>
  One level writes no more blocks than it reads, and fewer when the last directory it has
  combined is left with more than one.
\<close>

lemma combine_loop_blocks:
  assumes "combine_loop cmb ext b ns r out = Inr (r', out')"
    and "cmb = bloom_filter_combine ext"
    and "2 \<le> b"
    and "level_blocks ext out \<le> c"
    and "\<not> r \<Longrightarrow> out = [] \<or> level_blocks ext out < c"
  shows "level_blocks ext out' \<le> c + level_blocks ext ns \<and>
         (\<not> r' \<longrightarrow> out' = [] \<or> level_blocks ext out' < c + level_blocks ext ns)"
  using assms
proof (induction cmb ext b ns r out arbitrary: c rule: combine_loop.induct)
  case (1 cmb ext b all_combined out)
  then show ?case by auto
next
  case (2 cmb ext b name sz h ns all_combined out)
  then show ?case by simp
next
  case (3 cmb ext b name sub ns all_combined out)
  note cmb = \<open>cmb = bloom_filter_combine ext\<close>
  let ?k = "length (filter (regular_with ext) sub)"
  from "3.prems"(1) obtain bfs nh where fh: "first_header ext sub = Inr (bfs, nh)"
    by (auto split: sum.splits)
  show ?case
  proof (cases "bfs = 0")
    case True
    with "3.prems"(1) fh
    have run: "combine_loop cmb ext b ns all_combined out = Inr (r', out')"
      by simp
    have "level_blocks ext out \<le> c + ?k" using "3.prems"(4) by simp
    moreover have "\<not> all_combined \<Longrightarrow> out = [] \<or> level_blocks ext out < c + ?k"
      using "3.prems"(5) by auto
    ultimately show ?thesis
      using "3.IH"(2) [OF fh refl _ run cmb "3.prems"(3), of "c + ?k"] True
      by (simp add: add.assoc)
  next
    case False
    obtain r1 written where w: "cmb sub bfs nh b = (r1, written)"
      by (cases "cmb sub bfs nh b")
    from written_blocks [of ext sub bfs nh b r1 written] w cmb
    have wk: "blocks_of ext (Directory name written) = length (runs_of b (filter (regular_with ext) sub))"
      and r1: "r1 = (length written \<le> 1)"
      and lw: "length written = length (runs_of b (filter (regular_with ext) sub))"
      by simp_all
    from "3.prems"(1) fh False w
    have run: "combine_loop cmb ext b ns r1 (out @ [Directory name written]) = Inr (r', out')"
      by simp
    have le: "level_blocks ext (out @ [Directory name written]) \<le> c + ?k"
      using "3.prems"(4) wk runs_of_length_le [of b "filter (regular_with ext) sub"] by simp
    have strict: "\<not> r1 \<Longrightarrow> out @ [Directory name written] = [] \<or>
        level_blocks ext (out @ [Directory name written]) < c + ?k"
    proof -
      assume "\<not> r1"
      then have "1 < length (runs_of b (filter (regular_with ext) sub))" using r1 lw by simp
      from runs_of_shrinks [OF "3.prems"(3) this] "3.prems"(4) wk
      show ?thesis by simp
    qed
    from "3.IH"(1) [OF fh refl False w [symmetric] run cmb "3.prems"(3) le strict]
    show ?thesis by (simp add: add.assoc)
  qed
qed

text \<open>On a level that can be read the step returns, and leaves such a level.\<close>

lemma first_header_ok:
  "list_all (block_ok ext) sub \<Longrightarrow>
   \<exists>bfs nh. first_header ext sub = Inr (bfs, nh) \<and>
     (bfs = 0 \<longleftrightarrow> filter (regular_with ext) sub = [])"
  by (induction ext sub rule: first_header.induct)
    (auto simp: block_ok_def regular_with_def split: option.splits if_splits)

lemma written_ok:
  "0 < bfs \<Longrightarrow> bloom_filter_combine ext sub bfs nh b = (r, written) \<Longrightarrow>
   list_all (block_ok ext) written"
  by (auto simp: bloom_filter_combine_def Let_def list_all_iff block_ok_def merged_block_def)

lemma combine_loop_returns:
  assumes "cmb = bloom_filter_combine ext" and "0 < b"
    and "list_all (group_ok ext) ns" and "list_all (group_ok ext) out"
  shows "\<exists>r' out'. combine_loop cmb ext b ns r out = Inr (r', out') \<and>
      list_all (group_ok ext) out' \<and>
      (0 < level_blocks ext out + level_blocks ext ns \<longrightarrow> 0 < level_blocks ext out')"
  using assms
proof (induction cmb ext b ns r out rule: combine_loop.induct)
  case (1 cmb ext b all_combined out)
  then show ?case by simp
next
  case (2 cmb ext b name sz h ns all_combined out)
  then show ?case by simp
next
  case (3 cmb ext b name sub ns all_combined out)
  note cmb = \<open>cmb = bloom_filter_combine ext\<close>
  from "3.prems"(3) have sub: "list_all (block_ok ext) sub" and ns: "list_all (group_ok ext) ns"
    by simp_all
  from first_header_ok [OF sub] obtain bfs nh
    where fh: "first_header ext sub = Inr (bfs, nh)"
      and z: "bfs = 0 \<longleftrightarrow> filter (regular_with ext) sub = []"
    by blast
  show ?case
  proof (cases "bfs = 0")
    case True
    with z have "blocks_of ext (Directory name sub) = 0" by simp
    with "3.IH"(2) [OF fh refl _ cmb "3.prems"(2) ns "3.prems"(4)] True fh
    show ?thesis by simp
  next
    case False
    obtain r1 written where w: "cmb sub bfs nh b = (r1, written)"
      by (cases "cmb sub bfs nh b")
    from written_ok [of bfs ext sub nh b r1 written] False w cmb
    have wok: "list_all (block_ok ext) written" by simp
    from written_blocks [of ext sub bfs nh b r1 written] w cmb
    have "blocks_of ext (Directory name written) = length (runs_of b (filter (regular_with ext) sub))"
      by simp
    moreover have "runs_of b (filter (regular_with ext) sub) \<noteq> []"
      using runs_of_nonempty [OF "3.prems"(2)] z False by simp
    ultimately have pos: "0 < level_blocks ext (out @ [Directory name written])"
      by simp
    have ok: "list_all (group_ok ext) (out @ [Directory name written])"
      using "3.prems"(4) wok by simp
    from "3.IH"(1) [OF fh refl False w [symmetric] cmb "3.prems"(2) ns ok] pos
    obtain r' out' where
      "combine_loop cmb ext b ns r1 (out @ [Directory name written]) = Inr (r', out')"
      "list_all (group_ok ext) out'" "0 < level_blocks ext out'"
      by auto
    with fh False w show ?thesis by simp
  qed
qed

lemma combine_level:
  assumes "2 \<le> b" and "well_formed_level ext nodes"
  shows "\<exists>r out. combine_bloom_filters (bloom_filter_combine ext) ext nodes b = Inr (r, out) \<and>
      well_formed_level ext out \<and> (\<not> r \<longrightarrow> level_blocks ext out < level_blocks ext nodes)"
proof -
  from assms have ok: "list_all (group_ok ext) nodes" and pos: "0 < level_blocks ext nodes"
    by (simp_all add: well_formed_level_def)
  from assms(1) have b: "0 < b" by simp
  from combine_loop_returns [OF refl b ok, of "[]" False] pos
  obtain r out where run: "combine_loop (bloom_filter_combine ext) ext b nodes False [] = Inr (r, out)"
    and wf: "list_all (group_ok ext) out" "0 < level_blocks ext out"
    by auto
  from combine_loop_blocks [OF run refl assms(1), of 0]
  have "\<not> r \<longrightarrow> out = [] \<or> level_blocks ext out < level_blocks ext nodes"
    by simp
  with wf(2) have "\<not> r \<longrightarrow> level_blocks ext out < level_blocks ext nodes"
    by auto
  with run wf show ?thesis
    by (auto simp: combine_bloom_filters_def well_formed_level_def)
qed

lemma merge_loop_exits:
  assumes "2 \<le> b" and "well_formed_level ext nodes"
  shows "\<exists>k out. merge_loop (bloom_filter_combine ext) ext b (Some nodes) iteration =
      Some (Inr (k, out))"
  using assms(2)
proof (induction "level_blocks ext nodes" arbitrary: nodes iteration rule: less_induct)
  case less
  from combine_level [OF assms(1) less.prems]
  obtain r out where c: "combine_bloom_filters (bloom_filter_combine ext) ext nodes b = Inr (r, out)"
    and wf: "well_formed_level ext out"
    and dec: "\<not> r \<longrightarrow> level_blocks ext out < level_blocks ext nodes"
    by blast
  show ?case
  proof (cases r)
    case True
    with c show ?thesis by (subst merge_loop.simps) simp
  next
    case False
    from wf have "out \<noteq> []" by (auto simp: well_formed_level_def)
    with False c
    have "merge_loop (bloom_filter_combine ext) ext b (Some nodes) iteration =
        merge_loop (bloom_filter_combine ext) ext b (Some out) (iteration + 1)"
      by (subst merge_loop.simps) simp
    moreover from less.hyps [OF _ wf, of "iteration + 1"] dec False
    have "\<exists>k out'. merge_loop (bloom_filter_combine ext) ext b (Some out) (iteration + 1) =
        Some (Inr (k, out'))"
      by simp
    ultimately show ?thesis by simp
  qed
qed

text \<open>
  C9 fails on the code where a level has several directories.
  \<^verbatim>\<open>genome::msbf::combine_bloom_filters\<close> assigns \<^verbatim>\<open>all_combined\<close> anew for every directory
  and returns the last answer, so the loop ends as soon as the directory combined last is
  left with a single block, whatever the others hold. With a batch size of 8, nine blocks
  in directory 1 and one in directory 2, the loop ends after the first level and leaves
  two blocks in directory 1, where the claim has it run until a single block remains.
\<close>

theorem merge_loop_leaves_blocks:
  "merge_loop (bloom_filter_combine ''.bl'') ''.bl'' 8
     (Some [Directory ''1''
        [Regular_file ''a.bl'' 10 (Some \<lparr>bloom_filter_size = 64, num_hashes = 2\<rparr>),
         Regular_file ''b.bl'' 10 (Some \<lparr>bloom_filter_size = 64, num_hashes = 2\<rparr>),
         Regular_file ''c.bl'' 10 (Some \<lparr>bloom_filter_size = 64, num_hashes = 2\<rparr>),
         Regular_file ''d.bl'' 10 (Some \<lparr>bloom_filter_size = 64, num_hashes = 2\<rparr>),
         Regular_file ''e.bl'' 10 (Some \<lparr>bloom_filter_size = 64, num_hashes = 2\<rparr>),
         Regular_file ''f.bl'' 10 (Some \<lparr>bloom_filter_size = 64, num_hashes = 2\<rparr>),
         Regular_file ''g.bl'' 10 (Some \<lparr>bloom_filter_size = 64, num_hashes = 2\<rparr>),
         Regular_file ''h.bl'' 10 (Some \<lparr>bloom_filter_size = 64, num_hashes = 2\<rparr>),
         Regular_file ''i.bl'' 10 (Some \<lparr>bloom_filter_size = 64, num_hashes = 2\<rparr>)],
       Directory ''2'' [Regular_file ''j.bl'' 5 (Some \<lparr>bloom_filter_size = 64, num_hashes = 2\<rparr>)]]) 1 =
   Some (Inr (1,
     [Directory ''1'' [Regular_file ''a.bl'' 80 (Some \<lparr>bloom_filter_size = 64, num_hashes = 2\<rparr>),
        Regular_file ''i.bl'' 10 (Some \<lparr>bloom_filter_size = 64, num_hashes = 2\<rparr>)],
      Directory ''2'' [Regular_file ''j.bl'' 5 (Some \<lparr>bloom_filter_size = 64, num_hashes = 2\<rparr>)]]))"
  by (simp add: merge_loop.simps combine_bloom_filters_def bloom_filter_combine_def
      runs_of.simps merged_block_def regular_with_def boost_extension_def)

text \<open>
  That the loop ends is not in question. Against the merger as the specification
  describes it, for every batch size of at least 2 and every level that holds a block,
  the loop of \<^verbatim>\<open>create_msbf_from_samples\<close> terminates, leaving the loop in the regular
  way, and every level that does not end the loop strictly reduces the number of blocks.
\<close>

theorem merge_loop_ends:
  assumes "2 \<le> batch_size" and "well_formed_level ext nodes"
  shows "(\<exists>k out. merge_loop (bloom_filter_combine ext) ext batch_size (Some nodes) iteration =
            Some (Inr (k, out))) \<and>
         (\<forall>out. combine_bloom_filters (bloom_filter_combine ext) ext nodes batch_size = Inr (False, out)
            \<longrightarrow> well_formed_level ext out \<and> level_blocks ext out < level_blocks ext nodes)"
  using merge_loop_exits [OF assms] combine_level [OF assms] by auto

theorem merge_loop_ends_example:
  "(2 :: nat) \<le> 8 \<and>
   well_formed_level ''.bl''
     [Directory ''1''
        [Regular_file ''a.bl'' 10 (Some \<lparr>bloom_filter_size = 64, num_hashes = 2\<rparr>),
         Regular_file ''b.bl'' 10 (Some \<lparr>bloom_filter_size = 64, num_hashes = 2\<rparr>),
         Regular_file ''c.bl'' 10 (Some \<lparr>bloom_filter_size = 64, num_hashes = 2\<rparr>),
         Regular_file ''d.bl'' 10 (Some \<lparr>bloom_filter_size = 64, num_hashes = 2\<rparr>),
         Regular_file ''e.bl'' 10 (Some \<lparr>bloom_filter_size = 64, num_hashes = 2\<rparr>),
         Regular_file ''f.bl'' 10 (Some \<lparr>bloom_filter_size = 64, num_hashes = 2\<rparr>),
         Regular_file ''g.bl'' 10 (Some \<lparr>bloom_filter_size = 64, num_hashes = 2\<rparr>),
         Regular_file ''h.bl'' 10 (Some \<lparr>bloom_filter_size = 64, num_hashes = 2\<rparr>),
         Regular_file ''i.bl'' 10 (Some \<lparr>bloom_filter_size = 64, num_hashes = 2\<rparr>)]] \<and>
   (\<exists>k out. merge_loop (bloom_filter_combine ''.bl'') ''.bl'' 8
     (Some [Directory ''1''
        [Regular_file ''a.bl'' 10 (Some \<lparr>bloom_filter_size = 64, num_hashes = 2\<rparr>),
         Regular_file ''b.bl'' 10 (Some \<lparr>bloom_filter_size = 64, num_hashes = 2\<rparr>),
         Regular_file ''c.bl'' 10 (Some \<lparr>bloom_filter_size = 64, num_hashes = 2\<rparr>),
         Regular_file ''d.bl'' 10 (Some \<lparr>bloom_filter_size = 64, num_hashes = 2\<rparr>),
         Regular_file ''e.bl'' 10 (Some \<lparr>bloom_filter_size = 64, num_hashes = 2\<rparr>),
         Regular_file ''f.bl'' 10 (Some \<lparr>bloom_filter_size = 64, num_hashes = 2\<rparr>),
         Regular_file ''g.bl'' 10 (Some \<lparr>bloom_filter_size = 64, num_hashes = 2\<rparr>),
         Regular_file ''h.bl'' 10 (Some \<lparr>bloom_filter_size = 64, num_hashes = 2\<rparr>),
         Regular_file ''i.bl'' 10 (Some \<lparr>bloom_filter_size = 64, num_hashes = 2\<rparr>)]]) 1 = Some (Inr (k, out)))"
proof -
  have b: "(2 :: nat) \<le> 8" by simp
  have wf: "well_formed_level ''.bl''
     [Directory ''1''
        [Regular_file ''a.bl'' 10 (Some \<lparr>bloom_filter_size = 64, num_hashes = 2\<rparr>),
         Regular_file ''b.bl'' 10 (Some \<lparr>bloom_filter_size = 64, num_hashes = 2\<rparr>),
         Regular_file ''c.bl'' 10 (Some \<lparr>bloom_filter_size = 64, num_hashes = 2\<rparr>),
         Regular_file ''d.bl'' 10 (Some \<lparr>bloom_filter_size = 64, num_hashes = 2\<rparr>),
         Regular_file ''e.bl'' 10 (Some \<lparr>bloom_filter_size = 64, num_hashes = 2\<rparr>),
         Regular_file ''f.bl'' 10 (Some \<lparr>bloom_filter_size = 64, num_hashes = 2\<rparr>),
         Regular_file ''g.bl'' 10 (Some \<lparr>bloom_filter_size = 64, num_hashes = 2\<rparr>),
         Regular_file ''h.bl'' 10 (Some \<lparr>bloom_filter_size = 64, num_hashes = 2\<rparr>),
         Regular_file ''i.bl'' 10 (Some \<lparr>bloom_filter_size = 64, num_hashes = 2\<rparr>)]]"
    by (simp add: well_formed_level_def level_blocks_def block_ok_def regular_with_def
        boost_extension_def)
  from merge_loop_ends [OF b wf, of 1] b wf show ?thesis by blast
qed

end
